theory Spec2Isabelle
  imports Main "HOL-Library.Multiset" "HOL-Library.Word"
begin

text \<open>
  A shallow embedding of the client-side logic of the administration console: the
  reordering and creation of ordered rows (forum categories, homepage banners), the daily
  aggregation of login logs, the import of chapters from CSV and the export of coin
  transactions to CSV. The definitions follow the handlers of the source; state that a
  handler reads or writes is passed in and returned, a backend response is an argument,
  and what is rendered on the screen is left out.
\<close>

section \<open>JavaScript strings\<close>

text \<open>
  A JavaScript string is a sequence of UTF-16 code units; a code unit is modelled by its
  number. \<open>lit\<close> embeds an ASCII literal of the source.
\<close>

type_synonym js_string = "nat list"

definition lit :: "string \<Rightarrow> js_string" where
  "lit s = map of_char s"

section \<open>Ordered collections: forum categories and homepage banners\<close>

text \<open>
  \<^verbatim>\<open>src/pages/ForumCategories.tsx\<close> and \<^verbatim>\<open>src/pages/HomepageBanners.tsx\<close> keep a
  list of rows, each with an \<^verbatim>\<open>id\<close> and an integer position column
  (\<^verbatim>\<open>sort_order\<close> for categories, \<^verbatim>\<open>order\<close> for banners). The reordering
  handlers of the two pages are the same code up to the names of the table and of the
  position column, so they are embedded once, over an extensible record: every row has
  the two fields below, and the remaining columns of a category or of a banner are the
  record's extension.
\<close>

record orderable =
  id_field :: string
  sort_order :: int

record category = orderable +
  name :: js_string
  description :: js_string
  icon :: string
  is_active :: bool

record banner = orderable +
  image_url :: string
  title :: js_string
  link_url :: js_string
  banner_is_active :: bool
  created_at :: string

text \<open>
  The backend answers every request with \<^verbatim>\<open>{ data, error }\<close>. A response is modelled
  by its \<^verbatim>\<open>error\<close> member: \<open>None\<close> when the request was applied, \<open>Some e\<close> when it
  was rejected and the table is as before.
\<close>

type_synonym backend_error = string

text \<open>
  What a handler can throw, catch and log: \<^verbatim>\<open>new Error(message)\<close>, or the \<^verbatim>\<open>error\<close> of a
  backend response.
\<close>

datatype thrown = Error js_string | Response backend_error

text \<open>
  The page: the rows persisted in the backend table, the rows held in the React state
  (\<^verbatim>\<open>categories\<close>, \<^verbatim>\<open>banners\<close>) and the errors the handlers have caught and logged
  with \<^verbatim>\<open>console.error\<close>. The \<^verbatim>\<open>loading\<close> flag is left out, and so is the message that the
  banners page shows next to logging a failed reordering.
\<close>

record 'a page =
  table :: "'a orderable_scheme list"
  categories :: "'a orderable_scheme list"
  console :: "thrown list"

text \<open>\<^verbatim>\<open>supabase.from(t).update({ sort_order: v }).eq('id', i)\<close>\<close>

definition update_sort_order ::
  "backend_error option \<Rightarrow> int \<Rightarrow> string \<Rightarrow> 'a orderable_scheme list \<Rightarrow> 'a orderable_scheme list"
where
  "update_sort_order error v i rows =
     (case error of
        None \<Rightarrow> map (\<lambda>r. if id_field r = i then r\<lparr>sort_order := v\<rparr> else r) rows
      | Some e \<Rightarrow> rows)"

text \<open>
  \<^verbatim>\<open>fetchCategories\<close>: \<^verbatim>\<open>select('*').order('sort_order')\<close>, then \<^verbatim>\<open>setCategories(data || [])\<close>;
  a failed request is logged and leaves the state as it is. Rows with equal positions
  come back in an order the backend chooses; the model keeps their table order.
\<close>

definition fetchCategories :: "backend_error option \<Rightarrow> 'a page \<Rightarrow> 'a page" where
  "fetchCategories error st =
     (case error of
        None \<Rightarrow> st\<lparr>categories := sort_key sort_order (table st)\<rparr>
      | Some e \<Rightarrow> st\<lparr>console := console st @ [Response e]\<rparr>)"

text \<open>
  \<^verbatim>\<open>handleMoveUp(id, currentOrder)\<close>. The three responses are those of the two updates
  and of the refetch, in the order the requests are sent. Both updates are awaited
  before either error is looked at.
\<close>

definition handleMoveUp ::
  "backend_error option \<Rightarrow> backend_error option \<Rightarrow> backend_error option \<Rightarrow>
   string \<Rightarrow> int \<Rightarrow> 'a page \<Rightarrow> 'a page"
where
  "handleMoveUp error1 error2 error3 i currentOrder st =
     (case find (\<lambda>c. sort_order c = currentOrder - 1) (categories st) of
        None \<Rightarrow> st
      | Some prevCategory \<Rightarrow>
          let t1 = update_sort_order error1 currentOrder (id_field prevCategory) (table st);
              t2 = update_sort_order error2 (currentOrder - 1) i t1;
              st' = st\<lparr>table := t2\<rparr>
          in (case error1 of
                Some e \<Rightarrow> st'\<lparr>console := console st' @ [Response e]\<rparr>
              | None \<Rightarrow>
                  (case error2 of
                     Some e \<Rightarrow> st'\<lparr>console := console st' @ [Response e]\<rparr>
                   | None \<Rightarrow> fetchCategories error3 st')))"

definition handleMoveDown ::
  "backend_error option \<Rightarrow> backend_error option \<Rightarrow> backend_error option \<Rightarrow>
   string \<Rightarrow> int \<Rightarrow> 'a page \<Rightarrow> 'a page"
where
  "handleMoveDown error1 error2 error3 i currentOrder st =
     (case find (\<lambda>c. sort_order c = currentOrder + 1) (categories st) of
        None \<Rightarrow> st
      | Some nextCategory \<Rightarrow>
          let t1 = update_sort_order error1 currentOrder (id_field nextCategory) (table st);
              t2 = update_sort_order error2 (currentOrder + 1) i t1;
              st' = st\<lparr>table := t2\<rparr>
          in (case error1 of
                Some e \<Rightarrow> st'\<lparr>console := console st' @ [Response e]\<rparr>
              | None \<Rightarrow>
                  (case error2 of
                     Some e \<Rightarrow> st'\<lparr>console := console st' @ [Response e]\<rparr>
                   | None \<Rightarrow> fetchCategories error3 st')))"

subsection \<open>The invariant of an ordered collection\<close>

text \<open>
  The positions of \<open>N\<close> rows are a dense permutation of \<open>0..N-1\<close>: no position occurs
  twice and every position lies in that range (so, \<open>N\<close> distinct values among \<open>N\<close>
  candidates, every candidate occurs).
\<close>

definition dense_permutation :: "'a orderable_scheme list \<Rightarrow> bool" where
  "dense_permutation rows \<longleftrightarrow>
     distinct (map sort_order rows) \<and>
     list_all (\<lambda>r. 0 \<le> sort_order r \<and> sort_order r < int (length rows)) rows"

text \<open>Identifiers are primary keys, and the page shows what the table holds.\<close>

definition loaded :: "'a page \<Rightarrow> bool" where
  "loaded st \<longleftrightarrow>
     distinct (map id_field (table st)) \<and> categories st = sort_key sort_order (table st)"

subsection \<open>A page of three forum categories\<close>

definition cat_a :: category where
  "cat_a = \<lparr>id_field = ''a'', sort_order = 0, name = lit ''News'',
            description = lit ''Announcements'', icon = ''message-square'', is_active = True\<rparr>"

definition cat_b :: category where
  "cat_b = \<lparr>id_field = ''b'', sort_order = 1, name = lit ''Help'',
            description = lit ''Questions'', icon = ''users'', is_active = True\<rparr>"

definition cat_c :: category where
  "cat_c = \<lparr>id_field = ''c'', sort_order = 2, name = lit ''Off topic'',
            description = lit ''Everything else'', icon = ''trending-up'', is_active = False\<rparr>"

definition three_categories :: "unit category_ext page" where
  "three_categories = \<lparr>table = [cat_a, cat_b, cat_c], categories = [cat_a, cat_b, cat_c], console = []\<rparr>"

section \<open>Creating rows of an ordered collection\<close>

subsection \<open>String built-ins used by the forms\<close>

text \<open>
  The code units that \<^verbatim>\<open>String.prototype.trim\<close>, \<^verbatim>\<open>parseInt\<close>, \<^verbatim>\<open>Number\<close> and the regular
  expression class \<^verbatim>\<open>\s\<close> treat as white space (ECMAScript WhiteSpace and LineTerminator).
\<close>

definition isWhiteSpace :: "nat \<Rightarrow> bool" where
  "isWhiteSpace c \<longleftrightarrow>
     c \<in> {0x09, 0x0A, 0x0B, 0x0C, 0x0D, 0x20, 0xA0, 0x1680, 0x2028, 0x2029, 0x202F, 0x205F,
          0x3000, 0xFEFF} \<or> (0x2000 \<le> c \<and> c \<le> 0x200A)"

definition trim :: "js_string \<Rightarrow> js_string" where
  "trim s = rev (dropWhile isWhiteSpace (rev (dropWhile isWhiteSpace s)))"

text \<open>The value of a code unit as a digit: \<^verbatim>\<open>0-9\<close>, \<^verbatim>\<open>a-z\<close>, \<^verbatim>\<open>A-Z\<close>.\<close>

definition digitValue :: "nat \<Rightarrow> nat option" where
  "digitValue c =
     (if 0x30 \<le> c \<and> c \<le> 0x39 then Some (c - 0x30)
      else if 0x61 \<le> c \<and> c \<le> 0x7A then Some (c - 0x61 + 10)
      else if 0x41 \<le> c \<and> c \<le> 0x5A then Some (c - 0x41 + 10)
      else None)"

definition isRadixDigit :: "nat \<Rightarrow> nat \<Rightarrow> bool" where
  "isRadixDigit R c = (case digitValue c of Some d \<Rightarrow> d < R | None \<Rightarrow> False)"

fun digitsValue :: "nat \<Rightarrow> nat \<Rightarrow> js_string \<Rightarrow> nat" where
  "digitsValue R acc [] = acc"
| "digitsValue R acc (c # cs) = digitsValue R (acc * R + (case digitValue c of Some d \<Rightarrow> d | None \<Rightarrow> 0)) cs"

text \<open>
  \<^verbatim>\<open>parseInt(string)\<close> with no radix: leading white space is skipped, a sign is read, a
  \<^verbatim>\<open>0x\<close> prefix selects radix 16, and the longest run of digits is the value; \<open>None\<close> is
  \<^verbatim>\<open>NaN\<close>. \<open>Some n\<close> stands for the Number nearest to \<open>n\<close>, which is \<open>n\<close> itself up to
  \<open>2\<^sup>5\<^sup>3\<close>.
\<close>

definition parseInt :: "js_string \<Rightarrow> int option" where
  "parseInt string =
     (let S = dropWhile isWhiteSpace string;
          sign = (case S of c # _ \<Rightarrow> if c = 0x2D then - 1 else 1 | [] \<Rightarrow> (1::int));
          S1 = (case S of c # cs \<Rightarrow> if c = 0x2B \<or> c = 0x2D then cs else S | [] \<Rightarrow> S);
          hex = (case S1 of a # b # _ \<Rightarrow> a = 0x30 \<and> (b = 0x78 \<or> b = 0x58) | _ \<Rightarrow> False);
          R = (if hex then 16 else 10);
          S2 = (if hex then drop 2 S1 else S1);
          Z = takeWhile (isRadixDigit R) S2
      in if Z = [] then None else Some (sign * int (digitsValue R 0 Z)))"

subsection \<open>The category form of \<^verbatim>\<open>ForumCategories.tsx\<close>\<close>

datatype modal_type = Create | Edit

text \<open>\<^verbatim>\<open>Omit<ForumCategory, 'id'>\<close>\<close>

record category_data =
  data_name :: js_string
  data_description :: js_string
  data_icon :: string
  data_sort_order :: int
  data_is_active :: bool

text \<open>\<^verbatim>\<open>CategoryModal\<close>; \<^verbatim>\<open>type\<close> and \<^verbatim>\<open>id\<close> are named \<open>modal_kind\<close> and \<open>modal_id\<close>.\<close>

record CategoryModal =
  isOpen :: bool
  modal_kind :: modal_type
  data :: category_data
  modal_id :: "string option"
  loading :: bool
  modal_error :: js_string

text \<open>The button that opens the form for a new category.\<close>

definition openCreateModal :: "'a orderable_scheme list \<Rightarrow> CategoryModal" where
  "openCreateModal cats =
     \<lparr>isOpen = True, modal_kind = Create,
      data = \<lparr>data_name = [], data_description = [], data_icon = ''message-square'',
              data_sort_order = int (length cats), data_is_active = True\<rparr>,
      modal_id = None, loading = False, modal_error = []\<rparr>"

text \<open>The \<^verbatim>\<open>onChange\<close> handlers of the name, description and position fields.\<close>

definition changeName :: "js_string \<Rightarrow> CategoryModal \<Rightarrow> CategoryModal" where
  "changeName v modal = modal\<lparr>data := (data modal)\<lparr>data_name := v\<rparr>\<rparr>"

definition changeDescription :: "js_string \<Rightarrow> CategoryModal \<Rightarrow> CategoryModal" where
  "changeDescription v modal = modal\<lparr>data := (data modal)\<lparr>data_description := v\<rparr>\<rparr>"

definition changeSortOrder :: "js_string \<Rightarrow> CategoryModal \<Rightarrow> CategoryModal" where
  "changeSortOrder v modal =
     modal\<lparr>data := (data modal)\<lparr>data_sort_order := (case parseInt v of None \<Rightarrow> 0 | Some n \<Rightarrow> n)\<rparr>\<rparr>"

text \<open>The form as \<^verbatim>\<open>handleSubmit\<close> leaves it after a successful save.\<close>

definition closedModal :: CategoryModal where
  "closedModal =
     \<lparr>isOpen = False, modal_kind = Create,
      data = \<lparr>data_name = [], data_description = [], data_icon = ''message-square'',
              data_sort_order = 0, data_is_active = True\<rparr>,
      modal_id = None, loading = False, modal_error = []\<rparr>"

text \<open>
  The \<^verbatim>\<open>catch\<close> block of \<^verbatim>\<open>handleSubmit\<close>:
  \<^verbatim>\<open>error instanceof Error ? error.message : <default>\<close>. Whether the error of a backend
  response is an instance of \<^verbatim>\<open>Error\<close> depends on the release of the client library; it
  is the parameter \<open>response_is_Error\<close>. Messages that the source writes in Chinese are
  given by their code units.
\<close>

definition submitFailed ::
  "bool \<Rightarrow> thrown \<Rightarrow> CategoryModal \<Rightarrow> CategoryModal"
where
  "submitFailed response_is_Error t modal =
     modal\<lparr>loading := False,
           modal_error :=
             (case t of
                Error m \<Rightarrow> m
              | Response e \<Rightarrow>
                  if response_is_Error then lit e
                  else [0x4FDD, 0x5B58, 0x5206, 0x7C7B, 0x5931, 0x8D25])\<rparr>"

text \<open>
  \<^verbatim>\<open>insert([{ name, description, icon, sort_order, is_active }])\<close>: the backend gives the
  new row its \<^verbatim>\<open>id\<close>, here \<open>new_id\<close>.
\<close>

definition insert_category ::
  "backend_error option \<Rightarrow> string \<Rightarrow> category_data \<Rightarrow> category list \<Rightarrow> category list"
where
  "insert_category error new_id d rows =
     (case error of
        Some e \<Rightarrow> rows
      | None \<Rightarrow>
          rows @ [\<lparr>id_field = new_id, sort_order = data_sort_order d, name = data_name d,
                   description = data_description d, icon = data_icon d,
                   is_active = data_is_active d\<rparr>])"

text \<open>\<^verbatim>\<open>update({ name, description, icon, sort_order, is_active }).eq('id', modal.id)\<close>\<close>

definition update_category ::
  "backend_error option \<Rightarrow> category_data \<Rightarrow> string \<Rightarrow> category list \<Rightarrow> category list"
where
  "update_category error d i rows =
     (case error of
        Some e \<Rightarrow> rows
      | None \<Rightarrow>
          map (\<lambda>r. if id_field r = i
                    then r\<lparr>sort_order := data_sort_order d, name := data_name d,
                           description := data_description d, icon := data_icon d,
                           is_active := data_is_active d\<rparr>
                    else r) rows)"

text \<open>
  \<^verbatim>\<open>handleSubmit\<close> of the category form, on the form and the page. \<open>error\<close> answers the
  insert or the update, \<open>error3\<close> the refetch. The first two branches are the
  \<^verbatim>\<open>throw new Error(...)\<close> of the validation of the name and of the description. An edit
  form whose \<^verbatim>\<open>id\<close> is missing or empty sends no request.
\<close>

definition handleSubmit ::
  "bool \<Rightarrow> backend_error option \<Rightarrow> string \<Rightarrow> backend_error option \<Rightarrow>
   CategoryModal \<times> unit category_ext page \<Rightarrow> CategoryModal \<times> unit category_ext page"
where
  "handleSubmit response_is_Error error new_id error3 ms =
     (let modal = fst ms; st = snd ms; d = data modal;
          modal1 = modal\<lparr>loading := True, modal_error := []\<rparr>;
          failed = (\<lambda>t. (submitFailed response_is_Error t modal1, st\<lparr>console := console st @ [t]\<rparr>));
          saved = (\<lambda>rows. (closedModal, fetchCategories error3 (st\<lparr>table := rows\<rparr>)))
      in if trim (data_name d) = []
         then failed (Error [0x5206, 0x7C7B, 0x540D, 0x79F0, 0x4E0D, 0x80FD, 0x4E3A, 0x7A7A])
         else if trim (data_description d) = []
         then failed (Error [0x5206, 0x7C7B, 0x63CF, 0x8FF0, 0x4E0D, 0x80FD, 0x4E3A, 0x7A7A])
         else if modal_kind modal = Create
         then (case error of
                 Some e \<Rightarrow> failed (Response e)
               | None \<Rightarrow> saved (insert_category error new_id d (table st)))
         else (case modal_id modal of
                 None \<Rightarrow> saved (table st)
               | Some i \<Rightarrow>
                   if i = [] then saved (table st)
                   else (case error of
                           Some e \<Rightarrow> failed (Response e)
                         | None \<Rightarrow> saved (update_category error d i (table st)))))"

subsection \<open>The banner form of \<^verbatim>\<open>HomepageBanners.tsx\<close>\<close>

text \<open>\<^verbatim>\<open>BannerFormData\<close>, and the rest of the component's state that the form touches.\<close>

record BannerFormData =
  form_image_url :: string
  form_title :: js_string
  form_link_url :: js_string
  form_order :: int
  form_is_active :: bool

record banner_form =
  formData :: BannerFormData
  isModalOpen :: bool
  isEditMode :: bool
  currentBannerId :: "string option"
  error_message :: js_string
  success_message :: js_string

definition emptyFormData :: BannerFormData where
  "emptyFormData =
     \<lparr>form_image_url = [], form_title = [], form_link_url = [], form_order = 0,
      form_is_active = True\<rparr>"

text \<open>The button that opens the form for a new banner.\<close>

definition openCreateBanner :: "'a orderable_scheme list \<Rightarrow> banner_form \<Rightarrow> banner_form" where
  "openCreateBanner banners ui =
     ui\<lparr>formData := emptyFormData\<lparr>form_order := int (length banners)\<rparr>,
        isEditMode := False, currentBannerId := None, isModalOpen := True\<rparr>"

text \<open>
  The \<^verbatim>\<open>onChange\<close> handlers of the title, link and position fields, and the end of a
  successful \<^verbatim>\<open>handleImageUpload\<close>, which stores the public URL of the uploaded file.
\<close>

definition changeTitle :: "js_string \<Rightarrow> banner_form \<Rightarrow> banner_form" where
  "changeTitle v ui = ui\<lparr>formData := (formData ui)\<lparr>form_title := v\<rparr>\<rparr>"

definition changeLinkUrl :: "js_string \<Rightarrow> banner_form \<Rightarrow> banner_form" where
  "changeLinkUrl v ui = ui\<lparr>formData := (formData ui)\<lparr>form_link_url := v\<rparr>\<rparr>"

definition changeOrder :: "js_string \<Rightarrow> banner_form \<Rightarrow> banner_form" where
  "changeOrder v ui =
     ui\<lparr>formData := (formData ui)\<lparr>form_order := (case parseInt v of None \<Rightarrow> 0 | Some n \<Rightarrow> n)\<rparr>\<rparr>"

definition imageUploaded :: "string \<Rightarrow> banner_form \<Rightarrow> banner_form" where
  "imageUploaded publicUrl ui = ui\<lparr>formData := (formData ui)\<lparr>form_image_url := publicUrl\<rparr>\<rparr>"

text \<open>\<^verbatim>\<open>insert([{ image_url, title, link_url, order, is_active }])\<close>: the backend gives the
  new row its \<^verbatim>\<open>id\<close> and its \<^verbatim>\<open>created_at\<close>.\<close>

definition insert_banner ::
  "backend_error option \<Rightarrow> string \<Rightarrow> string \<Rightarrow> BannerFormData \<Rightarrow> banner list \<Rightarrow> banner list"
where
  "insert_banner error new_id now d rows =
     (case error of
        Some e \<Rightarrow> rows
      | None \<Rightarrow>
          rows @ [\<lparr>id_field = new_id, sort_order = form_order d, image_url = form_image_url d,
                   title = form_title d, link_url = form_link_url d,
                   banner_is_active = form_is_active d, created_at = now\<rparr>])"

definition update_banner ::
  "backend_error option \<Rightarrow> BannerFormData \<Rightarrow> string \<Rightarrow> banner list \<Rightarrow> banner list"
where
  "update_banner error d i rows =
     (case error of
        Some e \<Rightarrow> rows
      | None \<Rightarrow>
          map (\<lambda>r. if id_field r = i
                    then r\<lparr>sort_order := form_order d, image_url := form_image_url d,
                           title := form_title d, link_url := form_link_url d,
                           banner_is_active := form_is_active d\<rparr>
                    else r) rows)"

text \<open>
  \<^verbatim>\<open>fetchBanners\<close> is \<open>fetchCategories\<close> on the banners table; when it fails it also
  shows a message.
\<close>

definition fetchBanners ::
  "backend_error option \<Rightarrow> banner_form \<times> unit banner_ext page \<Rightarrow> banner_form \<times> unit banner_ext page"
where
  "fetchBanners error3 us =
     (case error3 of
        None \<Rightarrow> (fst us, fetchCategories error3 (snd us))
      | Some e \<Rightarrow>
          ((fst us)\<lparr>error_message := [0x83B7, 0x53D6, 0x8F6E, 0x64AD, 0x56FE, 0x6570, 0x636E, 0x5931, 0x8D25]\<rparr>,
           fetchCategories error3 (snd us)))"

text \<open>
  \<^verbatim>\<open>handleSubmit\<close> of the banner form. The three validations show a message and return;
  a rejected request is logged and shown as a message. \<open>edit_target\<close> is
  \<^verbatim>\<open>isEditMode && currentBannerId\<close>.
\<close>

definition handleSubmitBanner ::
  "backend_error option \<Rightarrow> string \<Rightarrow> string \<Rightarrow> backend_error option \<Rightarrow>
   banner_form \<times> unit banner_ext page \<Rightarrow> banner_form \<times> unit banner_ext page"
where
  "handleSubmitBanner error new_id now error3 us =
     (let ui = (fst us)\<lparr>error_message := [], success_message := []\<rparr>; st = snd us; d = formData ui;
          edit_target =
            (if isEditMode ui
             then (case currentBannerId ui of
                     Some i \<Rightarrow> if i = [] then None else Some i
                   | None \<Rightarrow> None)
             else None);
          failed = (\<lambda>e. (ui\<lparr>error_message := [0x4FDD, 0x5B58, 0x8F6E, 0x64AD, 0x56FE, 0x5931, 0x8D25]\<rparr>,
                         st\<lparr>console := console st @ [Response e]\<rparr>));
          saved = (\<lambda>message rows.
                     fetchBanners error3
                       (ui\<lparr>success_message := message, formData := emptyFormData, isModalOpen := False,
                           isEditMode := False, currentBannerId := None\<rparr>,
                        st\<lparr>table := rows\<rparr>))
      in if form_image_url d = []
         then (ui\<lparr>error_message := [0x8BF7, 0x4E0A, 0x4F20, 0x56FE, 0x7247]\<rparr>, st)
         else if trim (form_title d) = []
         then (ui\<lparr>error_message := [0x8BF7, 0x8F93, 0x5165, 0x6807, 0x9898]\<rparr>, st)
         else if trim (form_link_url d) = []
         then (ui\<lparr>error_message := [0x8BF7, 0x8F93, 0x5165, 0x94FE, 0x63A5, 0x55, 0x52, 0x4C]\<rparr>, st)
         else (case edit_target of
                 Some i \<Rightarrow>
                   (case error of
                      Some e \<Rightarrow> failed e
                    | None \<Rightarrow>
                        saved [0x8F6E, 0x64AD, 0x56FE, 0x66F4, 0x65B0, 0x6210, 0x529F]
                          (update_banner error d i (table st)))
               | None \<Rightarrow>
                   (case error of
                      Some e \<Rightarrow> failed e
                    | None \<Rightarrow>
                        saved [0x8F6E, 0x64AD, 0x56FE, 0x521B, 0x5EFA, 0x6210, 0x529F]
                          (insert_banner error new_id now d (table st)))))"

subsection \<open>A page of two banners and an idle banner form\<close>

definition banner_a :: banner where
  "banner_a = \<lparr>id_field = ''p'', sort_order = 0, image_url = ''https://cdn/banners/1.png'',
               title = lit ''Spring'', link_url = lit ''/books/1'', banner_is_active = True,
               created_at = ''2024-03-01T00:00:00Z''\<rparr>"

definition banner_b :: banner where
  "banner_b = \<lparr>id_field = ''q'', sort_order = 1, image_url = ''https://cdn/banners/2.png'',
               title = lit ''Ranking'', link_url = lit ''/rank'', banner_is_active = False,
               created_at = ''2024-03-02T00:00:00Z''\<rparr>"

definition two_banners :: "unit banner_ext page" where
  "two_banners = \<lparr>table = [banner_a, banner_b], categories = [banner_a, banner_b], console = []\<rparr>"

definition idle_form :: banner_form where
  "idle_form = \<lparr>formData = emptyFormData, isModalOpen = False, isEditMode = False,
                currentBannerId = None, error_message = [], success_message = []\<rparr>"

section \<open>Daily traffic statistics\<close>

text \<open>
  \<^verbatim>\<open>AdminTrafficStats.fetchStats\<close>. A JavaScript \<^verbatim>\<open>Date\<close> is modelled by its time value,
  the milliseconds since the epoch, and \<^verbatim>\<open>new Date(log.logged_in_at)\<close> by the time value
  of the logged timestamp. \<^verbatim>\<open>d.toISOString().split('T')[0]\<close> is the UTC calendar day of
  \<open>d\<close>, written \<^verbatim>\<open>YYYY-MM-DD\<close>; the model keeps the number of that day (days since the
  epoch), which names the same day and, for the four-digit years the page works in, is
  ordered as \<^verbatim>\<open>localeCompare\<close> orders the strings.
  \<^verbatim>\<open>setDate(getDate() + n)\<close> moves a date by \<open>n\<close> local days, that is by \<open>n\<close> times 24
  hours where the local zone keeps its UTC offset over the period.
\<close>

definition DAY :: int where
  "DAY = 86400000"

definition dateStr :: "int \<Rightarrow> int" where
  "dateStr d = d div DAY"

record login_log =
  logged_in_at :: int
  user_id :: string

text \<open>The values of the \<^verbatim>\<open>dailyStats\<close> map, and the rows of the result (\<^verbatim>\<open>DailyStats\<close>).\<close>

record day_stats =
  visits :: nat
  users :: "string set"

record DailyStats =
  date :: int
  stat_visits :: nat
  unique_users :: nat

text \<open>
  A JavaScript \<^verbatim>\<open>Map\<close> keeps its entries in insertion order; \<^verbatim>\<open>set\<close> on a key already
  present replaces the value where it stands.
\<close>

fun Map_set :: "'k \<Rightarrow> 'v \<Rightarrow> ('k \<times> 'v) list \<Rightarrow> ('k \<times> 'v) list" where
  "Map_set k v [] = [(k, v)]"
| "Map_set k v (e # m) = (if fst e = k then (k, v) # m else e # Map_set k v m)"

definition Map_get :: "('k \<times> 'v) list \<Rightarrow> 'k \<Rightarrow> 'v option" where
  "Map_get m k = map_of m k"

text \<open>
  \<^verbatim>\<open>for (let d = new Date(startDate); d <= endDate; d.setDate(d.getDate() + 1))\<close>
\<close>

function initDays :: "int \<Rightarrow> int \<Rightarrow> (int \<times> day_stats) list \<Rightarrow> (int \<times> day_stats) list" where
  "initDays d endDate dailyStats =
     (if d \<le> endDate
      then initDays (d + DAY) endDate (Map_set (dateStr d) \<lparr>visits = 0, users = {}\<rparr> dailyStats)
      else dailyStats)"
  by pat_completeness auto
termination
  by (relation "measure (\<lambda>(d, endDate, dailyStats). nat (endDate + 1 - d))") (auto simp: DAY_def)

declare initDays.simps [simp del]

text \<open>The body of \<^verbatim>\<open>loginLogs?.forEach(log => ...)\<close>\<close>

definition addLog :: "login_log \<Rightarrow> (int \<times> day_stats) list \<Rightarrow> (int \<times> day_stats) list" where
  "addLog log dailyStats =
     (case Map_get dailyStats (dateStr (logged_in_at log)) of
        None \<Rightarrow> dailyStats
      | Some dayStats \<Rightarrow>
          Map_set (dateStr (logged_in_at log))
            (dayStats\<lparr>visits := visits dayStats + 1,
                      users := insert (user_id log) (users dayStats)\<rparr>) dailyStats)"

text \<open>\<^verbatim>\<open>Array.from(dailyStats.entries()).map(...).sort(...)\<close>\<close>

definition processedStats :: "(int \<times> day_stats) list \<Rightarrow> DailyStats list" where
  "processedStats dailyStats =
     sort_key date
       (map (\<lambda>e. \<lparr>date = fst e, stat_visits = visits (snd e), unique_users = card (users (snd e))\<rparr>)
          dailyStats)"

text \<open>The aggregation of \<^verbatim>\<open>fetchStats\<close>, from the empty map to the sorted array.\<close>

definition aggregate :: "int \<Rightarrow> int \<Rightarrow> login_log list \<Rightarrow> DailyStats list" where
  "aggregate startDate endDate loginLogs =
     processedStats (fold addLog loginLogs (initDays startDate endDate []))"

text \<open>
  The component state that \<^verbatim>\<open>fetchStats\<close> writes, and \<^verbatim>\<open>fetchStats\<close> itself. \<open>now1\<close> and
  \<open>now2\<close> are the clock readings of the two \<^verbatim>\<open>new Date()\<close>, in that order; the response
  is the error of the query or the rows it returned.
\<close>

datatype time_range = Range7d | Range30d

record traffic_page =
  traffic_loading :: bool
  traffic_error :: js_string
  stats :: "DailyStats list"
  timeRange :: time_range

definition fetchStats ::
  "int \<Rightarrow> int \<Rightarrow> backend_error + login_log list \<Rightarrow> traffic_page \<Rightarrow> traffic_page"
where
  "fetchStats now1 now2 response st =
     (let endDate = now1;
          startDate = now2 - (if timeRange st = Range7d then 7 else 30) * DAY
      in case response of
           Inl logsError \<Rightarrow>
             st\<lparr>traffic_error := [0x52A0, 0x8F7D, 0x7EDF, 0x8BA1, 0x6570, 0x636E, 0x5931, 0x8D25],
                traffic_loading := False\<rparr>
         | Inr loginLogs \<Rightarrow>
             st\<lparr>traffic_error := [], stats := aggregate startDate endDate loginLogs,
                traffic_loading := False\<rparr>)"

text \<open>
  The words of the specification, to compare the code with: the days the loop initialises,
  and the bucket of a day, which counts the events of that day and their distinct users.
\<close>

definition initialised_days :: "int \<Rightarrow> int \<Rightarrow> int list" where
  "initialised_days startDate endDate = map fst (initDays startDate endDate [])"

definition bucket_of :: "login_log list \<Rightarrow> int \<Rightarrow> DailyStats" where
  "bucket_of events d =
     \<lparr>date = d,
      stat_visits = length (filter (\<lambda>l. dateStr (logged_in_at l) = d) events),
      unique_users = card (user_id ` set (filter (\<lambda>l. dateStr (logged_in_at l) = d) events))\<rparr>"

subsection \<open>Three days of logins\<close>

text \<open>
  Two logins of one user and one of another on day 1, none on day 2, one at the very
  start of day 3; and a statistics page before its first fetch.
\<close>

definition scenario_events :: "login_log list" where
  "scenario_events =
     [\<lparr>logged_in_at = DAY + 3600000, user_id = ''userA''\<rparr>,
      \<lparr>logged_in_at = DAY + 7200000, user_id = ''userA''\<rparr>,
      \<lparr>logged_in_at = 2 * DAY - 1, user_id = ''userB''\<rparr>,
      \<lparr>logged_in_at = 3 * DAY, user_id = ''userA''\<rparr>]"

definition fresh_traffic_page :: traffic_page where
  "fresh_traffic_page =
     \<lparr>traffic_loading = False, traffic_error = [], stats = [], timeRange = Range7d\<rparr>"

section \<open>Importing chapters from CSV\<close>

text \<open>
  \<^verbatim>\<open>handleCSVImport\<close> of \<^verbatim>\<open>src/pages/Chapters.tsx\<close> hands the file to the CSV parser of
  the \<^verbatim>\<open>papaparse\<close> package with \<^verbatim>\<open>header: true\<close>, and maps every parsed row to a chapter. A
  parsed row is an object whose members are the strings of the cells, by column name; a
  member is \<^verbatim>\<open>undefined\<close> (\<open>None\<close>) when the line or the header has no such column.
\<close>

record csv_row =
  row_order :: "js_string option"
  row_title :: "js_string option"
  row_content :: "js_string option"
  row_is_vip :: "js_string option"
  row_publish_at :: "js_string option"

subsection \<open>\<^verbatim>\<open>Number(value)\<close> on a string\<close>

text \<open>
  A Number is kept as the real number its literal denotes, before rounding to a double:
  \<open>Decimal neg m e\<close> is the Number nearest to \<open>m\<close> times ten to the power \<open>e\<close>, negated
  when \<open>neg\<close> (so \<open>Decimal False 1 0\<close> is \<open>1\<close>, and \<open>Decimal True 0 0\<close> is \<open>-0\<close>).
\<close>

datatype js_number = NaN | Infinity bool | Decimal bool nat int

definition isDecimalDigit :: "nat \<Rightarrow> bool" where
  "isDecimalDigit c \<longleftrightarrow> 0x30 \<le> c \<and> c \<le> 0x39"

text \<open>
  \<^verbatim>\<open>ExponentPart\<close>, when it is all that is left of the literal: nothing, or \<^verbatim>\<open>e\<close> or \<^verbatim>\<open>E\<close>,
  an optional sign and at least one digit. \<open>None\<close> when the rest is something else.
\<close>

definition exponentPart :: "js_string \<Rightarrow> int option" where
  "exponentPart s =
     (case s of
        [] \<Rightarrow> Some 0
      | c # r \<Rightarrow>
          if c = 0x65 \<or> c = 0x45
          then (let neg = (case r of x # _ \<Rightarrow> x = 0x2D | [] \<Rightarrow> False);
                    ds = (case r of x # xs \<Rightarrow> if x = 0x2B \<or> x = 0x2D then xs else r | [] \<Rightarrow> r)
                in if ds \<noteq> [] \<and> list_all isDecimalDigit ds
                   then Some (if neg then - int (digitsValue 10 0 ds) else int (digitsValue 10 0 ds))
                   else None)
          else None)"

text \<open>\<^verbatim>\<open>StrUnsignedDecimalLiteral\<close>: \<^verbatim>\<open>Infinity\<close>, or digits with an optional fraction and exponent.\<close>

definition strUnsignedDecimalLiteral :: "bool \<Rightarrow> js_string \<Rightarrow> js_number" where
  "strUnsignedDecimalLiteral neg s =
     (if s = lit ''Infinity'' then Infinity neg
      else
        let ip = takeWhile isDecimalDigit s;
            r1 = dropWhile isDecimalDigit s;
            fp = (case r1 of c # r \<Rightarrow> if c = 0x2E then takeWhile isDecimalDigit r else [] | [] \<Rightarrow> []);
            r2 = (case r1 of c # r \<Rightarrow> if c = 0x2E then dropWhile isDecimalDigit r else r1 | [] \<Rightarrow> [])
        in if ip = [] \<and> fp = [] then NaN
           else (case exponentPart r2 of
                   None \<Rightarrow> NaN
                 | Some ex \<Rightarrow> Decimal neg (digitsValue 10 0 (ip @ fp)) (ex - int (length fp))))"

text \<open>\<^verbatim>\<open>NonDecimalIntegerLiteral\<close>: \<^verbatim>\<open>0b\<close>, \<^verbatim>\<open>0o\<close> or \<^verbatim>\<open>0x\<close> (either case) and digits of that radix.\<close>

definition nonDecimalRadix :: "js_string \<Rightarrow> nat option" where
  "nonDecimalRadix s =
     (case s of
        a # b # _ \<Rightarrow>
          if a \<noteq> 0x30 then None
          else if b = 0x62 \<or> b = 0x42 then Some 2
          else if b = 0x6F \<or> b = 0x4F then Some 8
          else if b = 0x78 \<or> b = 0x58 then Some 16
          else None
      | _ \<Rightarrow> None)"

text \<open>
  \<^verbatim>\<open>StringToNumber\<close>: white space around the literal is ignored and the empty string is
  \<open>0\<close>; a string that is not a numeric literal is \<^verbatim>\<open>NaN\<close>.
\<close>

definition StringToNumber :: "js_string \<Rightarrow> js_number" where
  "StringToNumber str =
     (let s = trim str
      in if s = [] then Decimal False 0 0
         else (case nonDecimalRadix s of
                 Some R \<Rightarrow>
                   if drop 2 s \<noteq> [] \<and> list_all (isRadixDigit R) (drop 2 s)
                   then Decimal False (digitsValue R 0 (drop 2 s)) 0
                   else NaN
               | None \<Rightarrow>
                   (case s of
                      c # r \<Rightarrow>
                        if c = 0x2B then strUnsignedDecimalLiteral False r
                        else if c = 0x2D then strUnsignedDecimalLiteral True r
                        else strUnsignedDecimalLiteral False s
                    | [] \<Rightarrow> NaN)))"

text \<open>\<^verbatim>\<open>Number(value)\<close> for a string or \<^verbatim>\<open>undefined\<close>.\<close>

definition Number :: "js_string option \<Rightarrow> js_number" where
  "Number v = (case v of None \<Rightarrow> NaN | Some str \<Rightarrow> StringToNumber str)"

subsection \<open>The other built-ins of the row mapping\<close>

text \<open>\<^verbatim>\<open>String(value)\<close> for a string or \<^verbatim>\<open>undefined\<close>.\<close>

definition String :: "js_string option \<Rightarrow> js_string" where
  "String v = (case v of None \<Rightarrow> lit ''undefined'' | Some s \<Rightarrow> s)"

text \<open>
  \<^verbatim>\<open>toLowerCase\<close>, on the ASCII letters. The Unicode mapping of the other code units is
  left out: it never yields one of the letters of \<^verbatim>\<open>true\<close>, so the comparison below is
  decided by the ASCII letters alone.
\<close>

definition toLowerCase :: "js_string \<Rightarrow> js_string" where
  "toLowerCase s = map (\<lambda>c. if 0x41 \<le> c \<and> c \<le> 0x5A then c + 0x20 else c) s"

text \<open>
  \<^verbatim>\<open>split(/\s+/)\<close>: the string is cut at every maximal run of white space; the pieces before
  a leading run and after a trailing run are empty strings, and the empty string gives one
  empty piece.
\<close>

function split_whitespace :: "js_string \<Rightarrow> js_string list" where
  "split_whitespace S =
     (let T = takeWhile (\<lambda>c. \<not> isWhiteSpace c) S;
          rest = dropWhile (\<lambda>c. \<not> isWhiteSpace c) S
      in if rest = [] then [T] else T # split_whitespace (dropWhile isWhiteSpace rest))"
  by pat_completeness auto
termination
proof (relation "measure length")
  fix S T rest
  assume rest: "rest = dropWhile (\<lambda>c. \<not> isWhiteSpace c) S" and ne: "rest \<noteq> []"
  then have "isWhiteSpace (hd rest)"
    using hd_dropWhile [of "\<lambda>c. \<not> isWhiteSpace c" S] by simp
  with ne have "length (dropWhile isWhiteSpace rest) < length rest"
    by (cases rest) (simp_all add: length_dropWhile_le less_Suc_eq_le)
  also have "length rest \<le> length S"
    by (simp add: rest length_dropWhile_le)
  finally show "(dropWhile isWhiteSpace rest, S) \<in> measure length"
    by simp
qed simp

declare split_whitespace.simps [simp del]

text \<open>The decimal digits of a natural number, for the template literal of the default title.\<close>

fun decimal :: "nat \<Rightarrow> js_string" where
  "decimal n = (if n < 10 then [0x30 + n] else decimal (n div 10) @ [0x30 + n mod 10])"

declare decimal.simps [simp del]

subsection \<open>The row mapping\<close>

record chapter_row =
  ch_book_id :: string
  ch_order :: js_number
  ch_title :: js_string
  ch_content :: js_string
  ch_is_vip :: bool
  ch_publish_at :: "js_string option"
  ch_word_count :: nat

text \<open>
  The callback of \<^verbatim>\<open>results.data.map((row, index) => ...)\<close>. A string is falsy when it
  is empty: \<^verbatim>\<open>row.content || ''\<close>, the default title and \<^verbatim>\<open>row.publish_at || null\<close>.
\<close>

definition csvChapter :: "string \<Rightarrow> csv_row \<Rightarrow> nat \<Rightarrow> chapter_row" where
  "csvChapter selectedBookId row index =
     (let content = (case row_content row of None \<Rightarrow> [] | Some s \<Rightarrow> s);
          wordCount = length (filter (\<lambda>t. t \<noteq> []) (split_whitespace (trim content)));
          trimmed = (case row_title row of None \<Rightarrow> [] | Some s \<Rightarrow> trim s)
      in \<lparr>ch_book_id = selectedBookId,
          ch_order = Number (row_order row),
          ch_title = (if trimmed = [] then [0x7AE0, 0x8282, 0x20] @ decimal (index + 1) else trimmed),
          ch_content = content,
          ch_is_vip = (toLowerCase (String (row_is_vip row)) = lit ''true''),
          ch_publish_at = (case row_publish_at row of
                             None \<Rightarrow> None
                           | Some s \<Rightarrow> if s = [] then None else Some s),
          ch_word_count = wordCount\<rparr>)"

definition csvChapters :: "string \<Rightarrow> csv_row list \<Rightarrow> chapter_row list" where
  "csvChapters selectedBookId rows =
     map (\<lambda>(row, index). csvChapter selectedBookId row index) (zip rows [0..<length rows])"

text \<open>
  The words of the specification, to compare the code with: the tokens of a string are its
  maximal runs of characters that are not white space.
\<close>

function whitespace_tokens :: "js_string \<Rightarrow> js_string list" where
  "whitespace_tokens s =
     (let r = dropWhile isWhiteSpace s
      in if r = [] then []
         else takeWhile (\<lambda>c. \<not> isWhiteSpace c) r #
              whitespace_tokens (dropWhile (\<lambda>c. \<not> isWhiteSpace c) r))"
  by pat_completeness auto
termination
proof (relation "measure length")
  fix s r
  assume r: "r = dropWhile isWhiteSpace s" and ne: "r \<noteq> []"
  then have "\<not> isWhiteSpace (hd r)"
    using hd_dropWhile [of isWhiteSpace s] by simp
  with ne have "length (dropWhile (\<lambda>c. \<not> isWhiteSpace c) r) < length r"
    by (cases r) (simp_all add: length_dropWhile_le less_Suc_eq_le)
  also have "length r \<le> length s"
    by (simp add: r length_dropWhile_le)
  finally show "(dropWhile (\<lambda>c. \<not> isWhiteSpace c) r, s) \<in> measure length"
    by simp
qed simp

declare whitespace_tokens.simps [simp del]

text \<open>
  And what the coercion takes for a number, in the words of the ECMAScript grammar
  (\<^verbatim>\<open>StringNumericLiteral\<close>, the white space around it removed): nothing at all; or
  \<^verbatim>\<open>0b\<close>, \<^verbatim>\<open>0o\<close> or \<^verbatim>\<open>0x\<close>, in either case, and at least one digit of that radix; or an
  optional sign and then \<^verbatim>\<open>Infinity\<close> or decimal digits with an optional point among them
  and an optional exponent, at least one digit before the exponent.
\<close>

definition decimal_digits :: "js_string \<Rightarrow> bool" where
  "decimal_digits ds \<longleftrightarrow> ds \<noteq> [] \<and> list_all isDecimalDigit ds"

definition exponent_part :: "js_string \<Rightarrow> bool" where
  "exponent_part e \<longleftrightarrow>
     (\<exists>c sg ds. e = c # sg @ ds \<and> c \<in> {0x65, 0x45} \<and> sg \<in> {[], [0x2B], [0x2D]} \<and>
                decimal_digits ds)"

definition unsigned_decimal_literal :: "js_string \<Rightarrow> bool" where
  "unsigned_decimal_literal s \<longleftrightarrow>
     s = lit ''Infinity'' \<or>
     (\<exists>ip fp e. list_all isDecimalDigit ip \<and> list_all isDecimalDigit fp \<and>
                (e = [] \<or> exponent_part e) \<and>
                (s = ip @ e \<and> ip \<noteq> [] \<or> s = ip @ [0x2E] @ fp @ e \<and> ip @ fp \<noteq> []))"

definition non_decimal_literal :: "js_string \<Rightarrow> bool" where
  "non_decimal_literal s \<longleftrightarrow>
     (\<exists>p ds. s = 0x30 # p # ds \<and> ds \<noteq> [] \<and>
        (p \<in> {0x62, 0x42} \<and> list_all (\<lambda>c. c \<in> {0x30, 0x31}) ds \<or>
         p \<in> {0x6F, 0x4F} \<and> list_all (\<lambda>c. 0x30 \<le> c \<and> c \<le> 0x37) ds \<or>
         p \<in> {0x78, 0x58} \<and>
           list_all (\<lambda>c. 0x30 \<le> c \<and> c \<le> 0x39 \<or> 0x61 \<le> c \<and> c \<le> 0x66 \<or>
                         0x41 \<le> c \<and> c \<le> 0x46) ds))"

definition numeric_literal :: "js_string \<Rightarrow> bool" where
  "numeric_literal s \<longleftrightarrow>
     s = [] \<or> non_decimal_literal s \<or>
     (\<exists>sg body. s = sg @ body \<and> sg \<in> {[], [0x2B], [0x2D]} \<and> unsigned_decimal_literal body)"

subsection \<open>The two rows of the specification, and a row with an empty order cell\<close>

definition row_chapter_one :: csv_row where
  "row_chapter_one =
     \<lparr>row_order = Some (lit ''1''), row_title = Some [0x7B2C, 0x4E00, 0x7AE0],
      row_content = Some [0x5185, 0x5BB9], row_is_vip = Some (lit ''false''),
      row_publish_at = Some []\<rparr>"

definition row_bad_order :: csv_row where
  "row_bad_order =
     \<lparr>row_order = Some (lit ''x''), row_title = Some (lit ''Title''),
      row_content = Some (lit ''Body''), row_is_vip = Some (lit ''true''),
      row_publish_at = Some []\<rparr>"

definition row_empty_order :: csv_row where
  "row_empty_order =
     \<lparr>row_order = Some [], row_title = Some (lit ''Title''),
      row_content = Some (lit ''Body''), row_is_vip = Some (lit ''true''),
      row_publish_at = Some []\<rparr>"

section \<open>Exporting coin transactions as CSV\<close>

text \<open>
  \<^verbatim>\<open>AdminCoins.exportToCSV\<close>. A transaction is what the interface \<^verbatim>\<open>CoinTransaction\<close>
  declares. An amount is a whole number of coins that a Number holds exactly: a signed
  integer of 54 bits, from \<open>-2\<^sup>5\<^sup>3\<close> to \<open>2\<^sup>5\<^sup>3 - 1\<close>, whose value is read with \<open>sint\<close>. For
  these Numbers the conversion to text that \<^verbatim>\<open>join\<close> makes prints every digit; larger
  Numbers, which it prints rounded, are outside the type. How \<^verbatim>\<open>toLocaleString\<close> prints a
  date depends on the browser's locale and time zone: it is a parameter.
\<close>

datatype transaction_type = Recharge | Unlock | Gift | System

record CoinTransaction =
  tx_id :: string
  amount :: "54 word"
  tx_type :: transaction_type
  tx_description :: js_string
  tx_created_at :: js_string
  username :: js_string

text \<open>
  \<^verbatim>\<open>typeLabels[transaction.type] || transaction.type\<close>: each of the four declared types has
  a label, so the second operand is never taken.
\<close>

definition typeLabels :: "transaction_type \<Rightarrow> js_string" where
  "typeLabels t =
     (case t of
        Recharge \<Rightarrow> [0x5145, 0x503C]
      | Unlock \<Rightarrow> [0x89E3, 0x9501]
      | Gift \<Rightarrow> [0x6253, 0x8D4F]
      | System \<Rightarrow> [0x7CFB, 0x7EDF, 0x8D60, 0x9001])"

text \<open>The values of a row of \<^verbatim>\<open>csvData\<close>: strings and numbers.\<close>

datatype js_value = Str js_string | Num "54 word"

text \<open>\<^verbatim>\<open>Object.keys\<close> and \<^verbatim>\<open>Object.values\<close> of a row of \<^verbatim>\<open>csvData\<close>, in the order of the literal.\<close>

definition csvData_keys :: "js_string list" where
  "csvData_keys =
     [lit ''Username'', lit ''Amount'', lit ''Type'', lit ''Description'', lit ''Transaction Date'']"

definition csvData_values :: "(js_string \<Rightarrow> js_string) \<Rightarrow> CoinTransaction \<Rightarrow> js_value list" where
  "csvData_values toLocaleString transaction =
     [Str (username transaction),
      Num (amount transaction),
      Str (typeLabels (tx_type transaction)),
      Str (tx_description transaction),
      Str (toLocaleString (tx_created_at transaction))]"

text \<open>\<^verbatim>\<open>Array.prototype.join\<close> on strings.\<close>

fun join :: "js_string \<Rightarrow> js_string list \<Rightarrow> js_string" where
  "join sep [] = []"
| "join sep [x] = x"
| "join sep (x # y # ys) = x @ sep @ join sep (y # ys)"

text \<open>\<^verbatim>\<open>value.replace(/"/g, '""')\<close>\<close>

fun replace_quotes :: "js_string \<Rightarrow> js_string" where
  "replace_quotes [] = []"
| "replace_quotes (c # cs) = (if c = 0x22 then [0x22, 0x22] @ replace_quotes cs else c # replace_quotes cs)"

text \<open>The text \<^verbatim>\<open>join\<close> prints for such a number: a minus sign if it is negative, and its digits.\<close>

definition ToString :: "54 word \<Rightarrow> js_string" where
  "ToString n =
     (if sint n < 0 then 0x2D # decimal (nat (- sint n)) else decimal (nat (sint n)))"

text \<open>
  The callback applied to every value of a row, followed by the conversion to text that
  \<^verbatim>\<open>join\<close> makes of a value that is still a number.
\<close>

definition csv_cell :: "js_value \<Rightarrow> js_string" where
  "csv_cell v = (case v of Str s \<Rightarrow> [0x22] @ replace_quotes s @ [0x22] | Num n \<Rightarrow> ToString n)"

text \<open>The text of the file, from the rows the query returned (\<^verbatim>\<open>data\<close>).\<close>

definition exportToCSV :: "(js_string \<Rightarrow> js_string) \<Rightarrow> CoinTransaction list \<Rightarrow> js_string" where
  "exportToCSV toLocaleString data_rows =
     (let csvData = map (csvData_values toLocaleString) data_rows;
          headers = join [0x2C] (case csvData of [] \<Rightarrow> [] | first # _ \<Rightarrow> csvData_keys);
          rows = map (\<lambda>row. join [0x2C] (map csv_cell row)) csvData
      in join [0x0A] (headers # rows))"

text \<open>
  The words of the specification, to compare the code with: a quoted field is the field
  between two double quotes, every double quote of the field written twice.
\<close>

definition quoted_field :: "js_string \<Rightarrow> js_string" where
  "quoted_field s = [0x22] @ concat (map (\<lambda>c. if c = 0x22 then [0x22, 0x22] else [c]) s) @ [0x22]"

text \<open>
  And the plain decimal text of a whole number: digits only, at least one, no leading zero
  except for zero itself, their positional value the number; a negative number is a minus
  sign before the text of its magnitude.
\<close>

definition decimal_value :: "js_string \<Rightarrow> nat" where
  "decimal_value s = foldl (\<lambda>a c. 10 * a + (c - 0x30)) 0 s"

definition plain_decimal :: "nat \<Rightarrow> js_string \<Rightarrow> bool" where
  "plain_decimal n s \<longleftrightarrow>
     s \<noteq> [] \<and> list_all isDecimalDigit s \<and> (s = [0x30] \<or> 0x31 \<le> hd s) \<and> decimal_value s = n"

definition number_text :: "int \<Rightarrow> js_string \<Rightarrow> bool" where
  "number_text n s \<longleftrightarrow>
     (if n < 0 then s \<noteq> [] \<and> hd s = 0x2D \<and> plain_decimal (nat (- n)) (tl s)
      else plain_decimal (nat n) s)"

subsection \<open>Two transactions\<close>

definition tx_gift :: CoinTransaction where
  "tx_gift =
     \<lparr>tx_id = ''t1'', amount = - 30, tx_type = Gift,
      tx_description = lit ''Tip for '' @ [0x22] @ lit ''Dawn'' @ [0x22] @ lit '', ch. 3'',
      tx_created_at = lit ''2024-03-01T08:00:00Z'', username = lit ''reader_1''\<rparr>"

definition tx_recharge :: CoinTransaction where
  "tx_recharge =
     \<lparr>tx_id = ''t2'', amount = 500, tx_type = Recharge, tx_description = lit ''Top up'',
      tx_created_at = lit ''2024-03-02T09:30:00Z'', username = lit ''reader_2''\<rparr>"

section \<open>Verification: ordered collections\<close>

lemma id_field_inj:
  "distinct (map id_field rows) \<Longrightarrow> r \<in> set rows \<Longrightarrow> r' \<in> set rows \<Longrightarrow>
   id_field r = id_field r' \<longleftrightarrow> r = r'"
  by (auto simp: distinct_map dest: inj_onD)


lemma dense_permutation_range:
  "dense_permutation rows \<Longrightarrow> r \<in> set rows \<Longrightarrow>
   0 \<le> sort_order r \<and> sort_order r < int (length rows)"
  by (simp add: dense_permutation_def list_all_iff)

lemma dense_permutation_sort_key:
  "dense_permutation (sort_key sort_order rows) = dense_permutation rows"
proof -
  have "mset (map sort_order (sort_key sort_order rows)) = mset (map sort_order rows)"
    by simp
  then have "distinct (map sort_order (sort_key sort_order rows)) = distinct (map sort_order rows)"
    by (metis distinct_count_atmost_1 set_mset_mset)
  then show ?thesis
    by (simp add: dense_permutation_def list_all_iff)
qed


lemma swap_positions_table:
  assumes ids: "distinct (map id_field rows)"
    and c: "c \<in> set rows" and p: "p \<in> set rows" and ne: "c \<noteq> p"
  shows "update_sort_order None b (id_field c) (update_sort_order None a (id_field p) rows) =
         map (\<lambda>r. if r = c then r\<lparr>sort_order := b\<rparr> else if r = p then r\<lparr>sort_order := a\<rparr> else r) rows"
proof -
  have "\<And>r. r \<in> set rows \<Longrightarrow> (id_field r = id_field c \<longleftrightarrow> r = c) \<and> (id_field r = id_field p \<longleftrightarrow> r = p)"
    using ids c p by (simp add: id_field_inj)
  moreover have "id_field c \<noteq> id_field p"
    using ids c p ne by (simp add: id_field_inj)
  ultimately show ?thesis
    by (auto simp: update_sort_order_def)
qed

lemma swap_positions_dense:
  assumes d: "dense_permutation rows"
    and c: "c \<in> set rows" and p: "p \<in> set rows"
  shows "dense_permutation
           (map (\<lambda>r. if r = c then r\<lparr>sort_order := sort_order p\<rparr>
                     else if r = p then r\<lparr>sort_order := sort_order c\<rparr> else r) rows)"
proof -
  let ?f = "\<lambda>r. if r = c then r\<lparr>sort_order := sort_order p\<rparr>
                 else if r = p then r\<lparr>sort_order := sort_order c\<rparr> else r"
  have dist: "distinct rows" and inj: "inj_on sort_order (set rows)"
    using d by (simp_all add: dense_permutation_def distinct_map)
  have "inj_on (sort_order \<circ> ?f) (set rows)"
    using c p inj by (auto simp: inj_on_def)
  then have "distinct (map sort_order (map ?f rows))"
    using dist by (simp add: distinct_map)
  moreover have "list_all (\<lambda>r. 0 \<le> sort_order r \<and> sort_order r < int (length (map ?f rows))) (map ?f rows)"
    using d c p by (auto simp: list_all_iff dest: dense_permutation_range)
  ultimately show ?thesis
    unfolding dense_permutation_def by simp
qed

lemma find_SomeD: "find P xs = Some x \<Longrightarrow> x \<in> set xs \<and> P x"
  by (induction xs) (auto split: if_splits)

lemma loaded_find:
  assumes "loaded st" "find P (categories st) = Some p"
  shows "p \<in> set (table st) \<and> P p"
proof -
  from assms(2) have "p \<in> set (categories st) \<and> P p" by (rule find_SomeD)
  moreover have "set (categories st) = set (table st)"
    using assms(1) by (simp add: loaded_def)
  ultimately show ?thesis by simp
qed

lemma handleMoveUp_ok:
  assumes l: "loaded st" and d: "dense_permutation (table st)" and c: "c \<in> set (table st)"
    and f: "find (\<lambda>r. sort_order r = sort_order c - 1) (categories st) = Some p"
  shows "table (handleMoveUp None None error3 (id_field c) (sort_order c) st) =
           map (\<lambda>r. if r = c then r\<lparr>sort_order := sort_order p\<rparr>
                     else if r = p then r\<lparr>sort_order := sort_order c\<rparr> else r) (table st)"
proof -
  from loaded_find [OF l f] have p: "p \<in> set (table st)" and sp: "sort_order p = sort_order c - 1"
    by simp_all
  from sp have ne: "p \<noteq> c" by auto
  have "table (handleMoveUp None None error3 (id_field c) (sort_order c) st) =
        update_sort_order None (sort_order c - 1) (id_field c)
          (update_sort_order None (sort_order c) (id_field p) (table st))"
    using f by (simp add: handleMoveUp_def Let_def fetchCategories_def split: option.splits)
  also have "\<dots> = map (\<lambda>r. if r = c then r\<lparr>sort_order := sort_order c - 1\<rparr>
                     else if r = p then r\<lparr>sort_order := sort_order c\<rparr> else r) (table st)"
    using l c p ne by (intro swap_positions_table) (auto simp: loaded_def)
  finally show ?thesis by (simp add: sp)
qed

lemma handleMoveDown_ok:
  assumes l: "loaded st" and d: "dense_permutation (table st)" and c: "c \<in> set (table st)"
    and f: "find (\<lambda>r. sort_order r = sort_order c + 1) (categories st) = Some p"
  shows "table (handleMoveDown None None error3 (id_field c) (sort_order c) st) =
           map (\<lambda>r. if r = c then r\<lparr>sort_order := sort_order p\<rparr>
                     else if r = p then r\<lparr>sort_order := sort_order c\<rparr> else r) (table st)"
proof -
  from loaded_find [OF l f] have p: "p \<in> set (table st)" and sp: "sort_order p = sort_order c + 1"
    by simp_all
  from sp have ne: "p \<noteq> c" by auto
  have "table (handleMoveDown None None error3 (id_field c) (sort_order c) st) =
        update_sort_order None (sort_order c + 1) (id_field c)
          (update_sort_order None (sort_order c) (id_field p) (table st))"
    using f by (simp add: handleMoveDown_def Let_def fetchCategories_def split: option.splits)
  also have "\<dots> = map (\<lambda>r. if r = c then r\<lparr>sort_order := sort_order c + 1\<rparr>
                     else if r = p then r\<lparr>sort_order := sort_order c\<rparr> else r) (table st)"
    using l c p ne by (intro swap_positions_table) (auto simp: loaded_def)
  finally show ?thesis by (simp add: sp)
qed

text \<open>
  Claim C1. On a loaded page whose table satisfies the dense-permutation invariant, when
  \<^verbatim>\<open>handleMoveUp\<close> (and likewise \<^verbatim>\<open>handleMoveDown\<close>) called for a row \<open>c\<close> finds the
  neighbour and both updates succeed, the table afterwards is the old table with the
  positions of \<open>c\<close> and of the neighbour exchanged: every other row, and every other
  column of every row, is as before, and the invariant holds again.
\<close>
theorem move_exchanges_positions:
  assumes "loaded st" and "dense_permutation (table st)" and "c \<in> set (table st)"
  shows "(find (\<lambda>r. sort_order r = sort_order c - 1) (categories st) = Some p \<longrightarrow>
           p \<in> set (table st) \<and> sort_order p = sort_order c - 1 \<and>
           table (handleMoveUp None None error3 (id_field c) (sort_order c) st) =
             map (\<lambda>r. if r = c then r\<lparr>sort_order := sort_order c - 1\<rparr>
                       else if r = p then r\<lparr>sort_order := sort_order c\<rparr> else r) (table st) \<and>
           dense_permutation (table (handleMoveUp None None error3 (id_field c) (sort_order c) st)))
       \<and> (find (\<lambda>r. sort_order r = sort_order c + 1) (categories st) = Some n \<longrightarrow>
           n \<in> set (table st) \<and> sort_order n = sort_order c + 1 \<and>
           table (handleMoveDown None None error3 (id_field c) (sort_order c) st) =
             map (\<lambda>r. if r = c then r\<lparr>sort_order := sort_order c + 1\<rparr>
                       else if r = n then r\<lparr>sort_order := sort_order c\<rparr> else r) (table st) \<and>
           dense_permutation (table (handleMoveDown None None error3 (id_field c) (sort_order c) st)))"
proof (intro conjI impI)
  assume f: "find (\<lambda>r. sort_order r = sort_order c - 1) (categories st) = Some p"
  from loaded_find [OF assms(1) f]
  show p: "p \<in> set (table st)" and sp: "sort_order p = sort_order c - 1" by simp_all
  have t: "table (handleMoveUp None None error3 (id_field c) (sort_order c) st) =
             map (\<lambda>r. if r = c then r\<lparr>sort_order := sort_order p\<rparr>
                       else if r = p then r\<lparr>sort_order := sort_order c\<rparr> else r) (table st)"
    by (rule handleMoveUp_ok [OF assms f])
  then show "table (handleMoveUp None None error3 (id_field c) (sort_order c) st) =
             map (\<lambda>r. if r = c then r\<lparr>sort_order := sort_order c - 1\<rparr>
                       else if r = p then r\<lparr>sort_order := sort_order c\<rparr> else r) (table st)"
    by (simp add: sp)
  show "dense_permutation (table (handleMoveUp None None error3 (id_field c) (sort_order c) st))"
    unfolding t by (rule swap_positions_dense [OF assms(2) assms(3) p])
next
  assume f: "find (\<lambda>r. sort_order r = sort_order c + 1) (categories st) = Some n"
  from loaded_find [OF assms(1) f]
  show n: "n \<in> set (table st)" and sn: "sort_order n = sort_order c + 1" by simp_all
  have t: "table (handleMoveDown None None error3 (id_field c) (sort_order c) st) =
             map (\<lambda>r. if r = c then r\<lparr>sort_order := sort_order n\<rparr>
                       else if r = n then r\<lparr>sort_order := sort_order c\<rparr> else r) (table st)"
    by (rule handleMoveDown_ok [OF assms f])
  then show "table (handleMoveDown None None error3 (id_field c) (sort_order c) st) =
             map (\<lambda>r. if r = c then r\<lparr>sort_order := sort_order c + 1\<rparr>
                       else if r = n then r\<lparr>sort_order := sort_order c\<rparr> else r) (table st)"
    by (simp add: sn)
  show "dense_permutation (table (handleMoveDown None None error3 (id_field c) (sort_order c) st))"
    unfolding t by (rule swap_positions_dense [OF assms(2) assms(3) n])
qed

lemma find_NoneI: "(\<And>x. x \<in> set xs \<Longrightarrow> \<not> P x) \<Longrightarrow> find P xs = None"
  by (induction xs) auto



text \<open>
  Claim C3. On a loaded page whose table satisfies the dense-permutation invariant,
  \<^verbatim>\<open>handleMoveUp\<close> for the row at position \<open>0\<close> and \<^verbatim>\<open>handleMoveDown\<close> for the row at
  position \<open>N - 1\<close> change nothing: no request is sent, whatever the backend would have
  answered, and no error is logged.
\<close>
theorem move_at_end_is_noop:
  assumes "loaded st" and "dense_permutation (table st)" and "c \<in> set (table st)"
  shows "(sort_order c = 0 \<longrightarrow>
            handleMoveUp error1 error2 error3 (id_field c) (sort_order c) st = st)
       \<and> (sort_order c = int (length (table st)) - 1 \<longrightarrow>
            handleMoveDown error1 error2 error3 (id_field c) (sort_order c) st = st)"
proof (intro conjI impI)
  have view: "set (categories st) = set (table st)"
    using assms(1) by (simp add: loaded_def)
  {
    assume z: "sort_order c = 0"
    have "find (\<lambda>r. sort_order r = sort_order c - 1) (categories st) = None"
    proof (rule find_NoneI)
      fix x assume "x \<in> set (categories st)"
      then have "0 \<le> sort_order x"
        using assms(2) view by (simp add: dense_permutation_range)
      then show "\<not> sort_order x = sort_order c - 1" using z by simp
    qed
    then show "handleMoveUp error1 error2 error3 (id_field c) (sort_order c) st = st"
      by (simp add: handleMoveUp_def)
  }
  {
    assume z: "sort_order c = int (length (table st)) - 1"
    have "find (\<lambda>r. sort_order r = sort_order c + 1) (categories st) = None"
    proof (rule find_NoneI)
      fix x assume "x \<in> set (categories st)"
      then have "sort_order x < int (length (table st))"
        using assms(2) view by (simp add: dense_permutation_range)
      then show "\<not> sort_order x = sort_order c + 1" using z by simp
    qed
    then show "handleMoveDown error1 error2 error3 (id_field c) (sort_order c) st = st"
      by (simp add: handleMoveDown_def)
  }
qed








lemma three_categories_loaded: "loaded three_categories"
  by (simp add: loaded_def three_categories_def cat_a_def cat_b_def cat_c_def)

lemma three_categories_dense: "dense_permutation (table three_categories)"
  by (simp add: dense_permutation_def three_categories_def cat_a_def cat_b_def cat_c_def)

lemma three_categories_distinct:
  "cat_a \<noteq> cat_b" "cat_b \<noteq> cat_a" "cat_c \<noteq> cat_b" "cat_b \<noteq> cat_c" "cat_c \<noteq> cat_a" "cat_a \<noteq> cat_c"
  by (simp_all add: cat_a_def cat_b_def cat_c_def)

theorem move_exchanges_positions_witness:
  "loaded three_categories \<and> dense_permutation (table three_categories) \<and>
   cat_b \<in> set (table three_categories) \<and>
   find (\<lambda>r. sort_order r = sort_order cat_b - 1) (categories three_categories) = Some cat_a \<and>
   find (\<lambda>r. sort_order r = sort_order cat_b + 1) (categories three_categories) = Some cat_c \<and>
   table (handleMoveUp None None None (id_field cat_b) (sort_order cat_b) three_categories) =
     [cat_a\<lparr>sort_order := 1\<rparr>, cat_b\<lparr>sort_order := 0\<rparr>, cat_c] \<and>
   dense_permutation (table (handleMoveUp None None None (id_field cat_b) (sort_order cat_b) three_categories)) \<and>
   table (handleMoveDown None None None (id_field cat_b) (sort_order cat_b) three_categories) =
     [cat_a, cat_b\<lparr>sort_order := 2\<rparr>, cat_c\<lparr>sort_order := 1\<rparr>] \<and>
   dense_permutation (table (handleMoveDown None None None (id_field cat_b) (sort_order cat_b) three_categories))"
proof -
  have b: "cat_b \<in> set (table three_categories)"
    by (simp add: three_categories_def)
  have up: "find (\<lambda>r. sort_order r = sort_order cat_b - 1) (categories three_categories) = Some cat_a"
    by (simp add: three_categories_def cat_a_def cat_b_def cat_c_def)
  have down: "find (\<lambda>r. sort_order r = sort_order cat_b + 1) (categories three_categories) = Some cat_c"
    by (simp add: three_categories_def cat_a_def cat_b_def cat_c_def)
  have tab: "table three_categories = [cat_a, cat_b, cat_c]"
    by (simp add: three_categories_def)
  have so: "sort_order cat_b = 1"
    by (simp add: cat_b_def)
  note sw = move_exchanges_positions [OF three_categories_loaded three_categories_dense b,
      of cat_a None cat_c]
  from sw up have 1: "table (handleMoveUp None None None (id_field cat_b) (sort_order cat_b) three_categories) =
             map (\<lambda>r. if r = cat_b then r\<lparr>sort_order := sort_order cat_b - 1\<rparr>
                       else if r = cat_a then r\<lparr>sort_order := sort_order cat_b\<rparr> else r) (table three_categories)"
    and 2: "dense_permutation (table (handleMoveUp None None None (id_field cat_b) (sort_order cat_b) three_categories))"
    by blast+
  from sw down have 3: "table (handleMoveDown None None None (id_field cat_b) (sort_order cat_b) three_categories) =
             map (\<lambda>r. if r = cat_b then r\<lparr>sort_order := sort_order cat_b + 1\<rparr>
                       else if r = cat_c then r\<lparr>sort_order := sort_order cat_b\<rparr> else r) (table three_categories)"
    and 4: "dense_permutation (table (handleMoveDown None None None (id_field cat_b) (sort_order cat_b) three_categories))"
    by blast+
  have 1: "table (handleMoveUp None None None (id_field cat_b) (sort_order cat_b) three_categories) =
     [cat_a\<lparr>sort_order := 1\<rparr>, cat_b\<lparr>sort_order := 0\<rparr>, cat_c]"
    unfolding 1 tab by (simp add: three_categories_distinct so)
  have 3: "table (handleMoveDown None None None (id_field cat_b) (sort_order cat_b) three_categories) =
     [cat_a, cat_b\<lparr>sort_order := 2\<rparr>, cat_c\<lparr>sort_order := 1\<rparr>]"
    unfolding 3 tab by (simp add: three_categories_distinct so)
  show ?thesis
    using three_categories_loaded three_categories_dense b up down 1 2 3 4 by blast
qed



theorem move_at_end_is_noop_witness:
  "loaded three_categories \<and> dense_permutation (table three_categories) \<and>
   cat_a \<in> set (table three_categories) \<and> cat_c \<in> set (table three_categories) \<and>
   sort_order cat_a = 0 \<and> sort_order cat_c = int (length (table three_categories)) - 1 \<and>
   handleMoveUp None None None (id_field cat_a) (sort_order cat_a) three_categories = three_categories \<and>
   handleMoveDown None None None (id_field cat_c) (sort_order cat_c) three_categories = three_categories"
proof -
  have a: "cat_a \<in> set (table three_categories)" and c: "cat_c \<in> set (table three_categories)"
    by (simp_all add: three_categories_def)
  have first: "sort_order cat_a = 0"
    by (simp add: cat_a_def)
  have last: "sort_order cat_c = int (length (table three_categories)) - 1"
    by (simp add: cat_c_def three_categories_def)
  from move_at_end_is_noop [OF three_categories_loaded three_categories_dense a, of None None None] first
  have up: "handleMoveUp None None None (id_field cat_a) (sort_order cat_a) three_categories = three_categories"
    by blast
  from move_at_end_is_noop [OF three_categories_loaded three_categories_dense c, of None None None] last
  have down: "handleMoveDown None None None (id_field cat_c) (sort_order cat_c) three_categories = three_categories"
    by blast
  show ?thesis
    using three_categories_loaded three_categories_dense a c first last up down by blast
qed

lemma handleMoveUp_first_fails:
  assumes f: "find (\<lambda>r. sort_order r = k - 1) (categories st) = Some p"
  shows "handleMoveUp (Some e) None error3 i k st =
         st\<lparr>table := update_sort_order None (k - 1) i (table st), console := console st @ [Response e]\<rparr>"
  using f by (simp add: handleMoveUp_def Let_def update_sort_order_def)

lemma handleMoveDown_first_fails:
  assumes f: "find (\<lambda>r. sort_order r = k + 1) (categories st) = Some p"
  shows "handleMoveDown (Some e) None error3 i k st =
         st\<lparr>table := update_sort_order None (k + 1) i (table st), console := console st @ [Response e]\<rparr>"
  using f by (simp add: handleMoveDown_def Let_def update_sort_order_def)

lemma update_one_row:
  assumes ids: "distinct (map id_field rows)" and c: "c \<in> set rows"
  shows "update_sort_order None v (id_field c) rows =
         map (\<lambda>r. if r = c then r\<lparr>sort_order := v\<rparr> else r) rows"
proof -
  have "\<And>r. r \<in> set rows \<Longrightarrow> (id_field r = id_field c \<longleftrightarrow> r = c)"
    using ids c by (simp add: id_field_inj)
  then show ?thesis
    by (auto simp: update_sort_order_def)
qed

lemma duplicate_position:
  assumes ids: "distinct (map id_field rows)" and c: "c \<in> set rows" and p: "p \<in> set rows"
    and ne: "p \<noteq> c"
  shows "\<not> distinct (map sort_order
            (map (\<lambda>r. if r = c then r\<lparr>sort_order := sort_order p\<rparr> else r) rows))"
proof
  let ?f = "\<lambda>r. if r = c then r\<lparr>sort_order := sort_order p\<rparr> else r"
  assume "distinct (map sort_order (map ?f rows))"
  then have inj: "inj_on sort_order (set (map ?f rows))"
    by (simp only: distinct_map)
  have cm: "c\<lparr>sort_order := sort_order p\<rparr> \<in> set (map ?f rows)"
    using c by (auto intro!: image_eqI [where x = c])
  have pm: "p \<in> set (map ?f rows)"
    using p ne by (auto intro!: image_eqI [where x = p])
  have "sort_order (c\<lparr>sort_order := sort_order p\<rparr>) = sort_order p"
    by simp
  from inj this cm pm have "c\<lparr>sort_order := sort_order p\<rparr> = p"
    by (rule inj_onD)
  then have "id_field (c\<lparr>sort_order := sort_order p\<rparr>) = id_field p"
    by (rule arg_cong)
  then have "id_field c = id_field p"
    by simp
  then show False
    using ids c p ne by (simp add: id_field_inj)
qed


lemma handleMoveUp_table:
  assumes "find (\<lambda>r. sort_order r = k - 1) (categories st) = Some p"
  shows "table (handleMoveUp error1 error2 error3 i k st) =
         update_sort_order error2 (k - 1) i (update_sort_order error1 k (id_field p) (table st))"
  using assms
  by (cases error1; cases error2; cases error3)
     (simp_all add: handleMoveUp_def Let_def fetchCategories_def)

lemma handleMoveDown_table:
  assumes "find (\<lambda>r. sort_order r = k + 1) (categories st) = Some p"
  shows "table (handleMoveDown error1 error2 error3 i k st) =
         update_sort_order error2 (k + 1) i (update_sort_order error1 k (id_field p) (table st))"
  using assms
  by (cases error1; cases error2; cases error3)
     (simp_all add: handleMoveDown_def Let_def fetchCategories_def)

text \<open>
  Claim C10. Once the neighbour is found, both updates are sent whatever the first one
  answers: the table afterwards is the second update applied to the result of the first.
  When the first update fails and the second succeeds, only the moved row has changed,
  the first error is the one logged, and the moved row and its neighbour hold the same
  position.
\<close>
theorem first_update_failure_leaves_duplicate:
  assumes l: "loaded st" and c: "c \<in> set (table st)"
  shows "(find (\<lambda>r. sort_order r = sort_order c - 1) (categories st) = Some p \<longrightarrow>
            table (handleMoveUp error1 error2 error3 (id_field c) (sort_order c) st) =
              update_sort_order error2 (sort_order c - 1) (id_field c)
                (update_sort_order error1 (sort_order c) (id_field p) (table st)) \<and>
            handleMoveUp (Some e) None error3 (id_field c) (sort_order c) st =
              st\<lparr>table := map (\<lambda>r. if r = c then r\<lparr>sort_order := sort_order c - 1\<rparr> else r) (table st),
                 console := console st @ [Response e]\<rparr> \<and>
            \<not> distinct (map sort_order
                  (table (handleMoveUp (Some e) None error3 (id_field c) (sort_order c) st))))
       \<and> (find (\<lambda>r. sort_order r = sort_order c + 1) (categories st) = Some n \<longrightarrow>
            table (handleMoveDown error1 error2 error3 (id_field c) (sort_order c) st) =
              update_sort_order error2 (sort_order c + 1) (id_field c)
                (update_sort_order error1 (sort_order c) (id_field n) (table st)) \<and>
            handleMoveDown (Some e) None error3 (id_field c) (sort_order c) st =
              st\<lparr>table := map (\<lambda>r. if r = c then r\<lparr>sort_order := sort_order c + 1\<rparr> else r) (table st),
                 console := console st @ [Response e]\<rparr> \<and>
            \<not> distinct (map sort_order
                  (table (handleMoveDown (Some e) None error3 (id_field c) (sort_order c) st))))"
proof (intro conjI impI)
  have ids: "distinct (map id_field (table st))" using l by (simp add: loaded_def)
  {
    assume f: "find (\<lambda>r. sort_order r = sort_order c - 1) (categories st) = Some p"
    from loaded_find [OF l f] have p: "p \<in> set (table st)" and sp: "sort_order p = sort_order c - 1"
      by simp_all
    from sp have ne: "p \<noteq> c" by auto
    show "table (handleMoveUp error1 error2 error3 (id_field c) (sort_order c) st) =
              update_sort_order error2 (sort_order c - 1) (id_field c)
                (update_sort_order error1 (sort_order c) (id_field p) (table st))"
      by (rule handleMoveUp_table [OF f])
    show st': "handleMoveUp (Some e) None error3 (id_field c) (sort_order c) st =
              st\<lparr>table := map (\<lambda>r. if r = c then r\<lparr>sort_order := sort_order c - 1\<rparr> else r) (table st),
                 console := console st @ [Response e]\<rparr>"
      by (simp add: handleMoveUp_first_fails [OF f] update_one_row [OF ids c])
    show "\<not> distinct (map sort_order
                  (table (handleMoveUp (Some e) None error3 (id_field c) (sort_order c) st)))"
      using duplicate_position [OF ids c p ne] unfolding st' sp by simp
  }
  {
    assume f: "find (\<lambda>r. sort_order r = sort_order c + 1) (categories st) = Some n"
    from loaded_find [OF l f] have n: "n \<in> set (table st)" and sn: "sort_order n = sort_order c + 1"
      by simp_all
    from sn have ne: "n \<noteq> c" by auto
    show "table (handleMoveDown error1 error2 error3 (id_field c) (sort_order c) st) =
              update_sort_order error2 (sort_order c + 1) (id_field c)
                (update_sort_order error1 (sort_order c) (id_field n) (table st))"
      by (rule handleMoveDown_table [OF f])
    show st': "handleMoveDown (Some e) None error3 (id_field c) (sort_order c) st =
              st\<lparr>table := map (\<lambda>r. if r = c then r\<lparr>sort_order := sort_order c + 1\<rparr> else r) (table st),
                 console := console st @ [Response e]\<rparr>"
      by (simp add: handleMoveDown_first_fails [OF f] update_one_row [OF ids c])
    show "\<not> distinct (map sort_order
                  (table (handleMoveDown (Some e) None error3 (id_field c) (sort_order c) st)))"
      using duplicate_position [OF ids c n ne] unfolding st' sn by simp
  }
qed

theorem first_update_failure_leaves_duplicate_witness:
  "loaded three_categories \<and> cat_b \<in> set (table three_categories) \<and>
   find (\<lambda>r. sort_order r = sort_order cat_b - 1) (categories three_categories) = Some cat_a \<and>
   find (\<lambda>r. sort_order r = sort_order cat_b + 1) (categories three_categories) = Some cat_c \<and>
   handleMoveUp (Some ''timeout'') None None (id_field cat_b) (sort_order cat_b) three_categories =
     \<lparr>table = [cat_a, cat_b\<lparr>sort_order := 0\<rparr>, cat_c], categories = [cat_a, cat_b, cat_c],
      console = [Response ''timeout'']\<rparr> \<and>
   \<not> distinct (map sort_order (table
        (handleMoveUp (Some ''timeout'') None None (id_field cat_b) (sort_order cat_b) three_categories))) \<and>
   handleMoveDown (Some ''timeout'') None None (id_field cat_b) (sort_order cat_b) three_categories =
     \<lparr>table = [cat_a, cat_b\<lparr>sort_order := 2\<rparr>, cat_c], categories = [cat_a, cat_b, cat_c],
      console = [Response ''timeout'']\<rparr> \<and>
   \<not> distinct (map sort_order (table
        (handleMoveDown (Some ''timeout'') None None (id_field cat_b) (sort_order cat_b) three_categories)))"
proof -
  have b: "cat_b \<in> set (table three_categories)"
    by (simp add: three_categories_def)
  have up: "find (\<lambda>r. sort_order r = sort_order cat_b - 1) (categories three_categories) = Some cat_a"
    by (simp add: three_categories_def cat_a_def cat_b_def cat_c_def)
  have down: "find (\<lambda>r. sort_order r = sort_order cat_b + 1) (categories three_categories) = Some cat_c"
    by (simp add: three_categories_def cat_a_def cat_b_def cat_c_def)
  have so: "sort_order cat_b = 1"
    by (simp add: cat_b_def)
  note dup = first_update_failure_leaves_duplicate [OF three_categories_loaded b,
      of cat_a None None None "''timeout''" cat_c]
  from dup up have 1: "handleMoveUp (Some ''timeout'') None None (id_field cat_b) (sort_order cat_b) three_categories =
      three_categories\<lparr>table := map (\<lambda>r. if r = cat_b then r\<lparr>sort_order := sort_order cat_b - 1\<rparr> else r)
         (table three_categories), console := console three_categories @ [Response ''timeout'']\<rparr>"
    and 2: "\<not> distinct (map sort_order (table
        (handleMoveUp (Some ''timeout'') None None (id_field cat_b) (sort_order cat_b) three_categories)))"
    by blast+
  from dup down have 3: "handleMoveDown (Some ''timeout'') None None (id_field cat_b) (sort_order cat_b) three_categories =
      three_categories\<lparr>table := map (\<lambda>r. if r = cat_b then r\<lparr>sort_order := sort_order cat_b + 1\<rparr> else r)
         (table three_categories), console := console three_categories @ [Response ''timeout'']\<rparr>"
    and 4: "\<not> distinct (map sort_order (table
        (handleMoveDown (Some ''timeout'') None None (id_field cat_b) (sort_order cat_b) three_categories)))"
    by blast+
  have 1: "handleMoveUp (Some ''timeout'') None None (id_field cat_b) (sort_order cat_b) three_categories =
     \<lparr>table = [cat_a, cat_b\<lparr>sort_order := 0\<rparr>, cat_c], categories = [cat_a, cat_b, cat_c],
      console = [Response ''timeout'']\<rparr>"
    unfolding 1 by (simp add: three_categories_def three_categories_distinct so)
  have 3: "handleMoveDown (Some ''timeout'') None None (id_field cat_b) (sort_order cat_b) three_categories =
     \<lparr>table = [cat_a, cat_b\<lparr>sort_order := 2\<rparr>, cat_c], categories = [cat_a, cat_b, cat_c],
      console = [Response ''timeout'']\<rparr>"
    unfolding 3 by (simp add: three_categories_def three_categories_distinct so)
  show ?thesis
    using three_categories_loaded b up down 1 2 3 4 by blast
qed

section \<open>Verification: creating rows\<close>

lemma handleSubmit_create:
  assumes "modal_kind modal = Create" "trim (data_name (data modal)) \<noteq> []"
    "trim (data_description (data modal)) \<noteq> []"
  shows "table (snd (handleSubmit response_is_Error None new_id refetch (modal, st))) =
         table st @ [\<lparr>id_field = new_id, sort_order = data_sort_order (data modal),
                       name = data_name (data modal), description = data_description (data modal),
                       icon = data_icon (data modal), is_active = data_is_active (data modal)\<rparr>]"
  using assms
  by (cases refetch) (simp_all add: handleSubmit_def Let_def insert_category_def fetchCategories_def)

lemma handleSubmitBanner_create:
  assumes "\<not> isEditMode ui" "form_image_url (formData ui) \<noteq> []"
    "trim (form_title (formData ui)) \<noteq> []" "trim (form_link_url (formData ui)) \<noteq> []"
  shows "table (snd (handleSubmitBanner None new_id now refetch (ui, st))) =
         table st @ [\<lparr>id_field = new_id, sort_order = form_order (formData ui),
                       image_url = form_image_url (formData ui), title = form_title (formData ui),
                       link_url = form_link_url (formData ui),
                       banner_is_active = form_is_active (formData ui), created_at = now\<rparr>]"
  using assms
  by (cases refetch)
     (simp_all add: handleSubmitBanner_def Let_def insert_banner_def fetchBanners_def fetchCategories_def)

text \<open>
  Claim C7, as amended. The button that opens the create form of either page pre-sets the
  position field to the number \<open>N\<close> of loaded rows. A successful create inserts a row
  whose position is the value the form holds on submit: \<open>N\<close> when the operator filled in
  the other fields and left the position alone, the entered value otherwise.
\<close>

theorem create_uses_form_position:
  "data_sort_order (data (openCreateModal cats)) = int (length cats) \<and>
   form_order (formData (openCreateBanner bans ui)) = int (length bans) \<and>
   (modal_kind modal = Create \<and> trim (data_name (data modal)) \<noteq> [] \<and>
    trim (data_description (data modal)) \<noteq> [] \<longrightarrow>
      table (snd (handleSubmit response_is_Error None new_id refetch (modal, st))) =
        table st @ [\<lparr>id_field = new_id, sort_order = data_sort_order (data modal),
                      name = data_name (data modal), description = data_description (data modal),
                      icon = data_icon (data modal), is_active = data_is_active (data modal)\<rparr>]) \<and>
   (\<not> isEditMode form \<and> form_image_url (formData form) \<noteq> [] \<and>
    trim (form_title (formData form)) \<noteq> [] \<and> trim (form_link_url (formData form)) \<noteq> [] \<longrightarrow>
      table (snd (handleSubmitBanner None new_id now refetch (form, bst))) =
        table bst @ [\<lparr>id_field = new_id, sort_order = form_order (formData form),
                       image_url = form_image_url (formData form), title = form_title (formData form),
                       link_url = form_link_url (formData form),
                       banner_is_active = form_is_active (formData form), created_at = now\<rparr>]) \<and>
   (trim n \<noteq> [] \<and> trim d \<noteq> [] \<longrightarrow>
      table (snd (handleSubmit response_is_Error None new_id refetch
               (changeDescription d (changeName n (openCreateModal (categories st))), st))) =
        table st @ [\<lparr>id_field = new_id, sort_order = int (length (categories st)),
                      name = n, description = d, icon = ''message-square'', is_active = True\<rparr>]) \<and>
   (url \<noteq> [] \<and> trim t \<noteq> [] \<and> trim l \<noteq> [] \<longrightarrow>
      table (snd (handleSubmitBanner None new_id now refetch
               (changeLinkUrl l (changeTitle t (imageUploaded url (openCreateBanner (categories bst) ui))),
                bst))) =
        table bst @ [\<lparr>id_field = new_id, sort_order = int (length (categories bst)),
                       image_url = url, title = t, link_url = l,
                       banner_is_active = True, created_at = now\<rparr>])"
proof (intro conjI impI)
  show "data_sort_order (data (openCreateModal cats)) = int (length cats)"
    by (simp add: openCreateModal_def)
  show "form_order (formData (openCreateBanner bans ui)) = int (length bans)"
    by (simp add: openCreateBanner_def emptyFormData_def)
next
  assume "modal_kind modal = Create \<and> trim (data_name (data modal)) \<noteq> [] \<and>
    trim (data_description (data modal)) \<noteq> []"
  then show "table (snd (handleSubmit response_is_Error None new_id refetch (modal, st))) =
        table st @ [\<lparr>id_field = new_id, sort_order = data_sort_order (data modal),
                      name = data_name (data modal), description = data_description (data modal),
                      icon = data_icon (data modal), is_active = data_is_active (data modal)\<rparr>]"
    by (simp add: handleSubmit_create)
next
  assume "\<not> isEditMode form \<and> form_image_url (formData form) \<noteq> [] \<and>
    trim (form_title (formData form)) \<noteq> [] \<and> trim (form_link_url (formData form)) \<noteq> []"
  then show "table (snd (handleSubmitBanner None new_id now refetch (form, bst))) =
        table bst @ [\<lparr>id_field = new_id, sort_order = form_order (formData form),
                       image_url = form_image_url (formData form), title = form_title (formData form),
                       link_url = form_link_url (formData form),
                       banner_is_active = form_is_active (formData form), created_at = now\<rparr>]"
    by (simp add: handleSubmitBanner_create)
next
  assume "trim n \<noteq> [] \<and> trim d \<noteq> []"
  then show "table (snd (handleSubmit response_is_Error None new_id refetch
               (changeDescription d (changeName n (openCreateModal (categories st))), st))) =
        table st @ [\<lparr>id_field = new_id, sort_order = int (length (categories st)),
                      name = n, description = d, icon = ''message-square'', is_active = True\<rparr>]"
    by (subst handleSubmit_create)
       (simp_all add: changeDescription_def changeName_def openCreateModal_def)
next
  assume "url \<noteq> [] \<and> trim t \<noteq> [] \<and> trim l \<noteq> []"
  then show "table (snd (handleSubmitBanner None new_id now refetch
               (changeLinkUrl l (changeTitle t (imageUploaded url (openCreateBanner (categories bst) ui))),
                bst))) =
        table bst @ [\<lparr>id_field = new_id, sort_order = int (length (categories bst)),
                       image_url = url, title = t, link_url = l,
                       banner_is_active = True, created_at = now\<rparr>]"
    by (subst handleSubmitBanner_create)
       (simp_all add: changeLinkUrl_def changeTitle_def imageUploaded_def openCreateBanner_def
          emptyFormData_def)
qed

lemma entered_values:
  "trim (lit ''Chat'') \<noteq> []" "trim (lit ''Talk'') \<noteq> []" "parseInt (lit ''0'') = Some 0"
  "trim (lit ''Summer'') \<noteq> []" "trim (lit ''/books/2'') \<noteq> []"
  by (simp_all add: trim_def parseInt_def lit_def isWhiteSpace_def isRadixDigit_def digitValue_def)

text \<open>
  Claim C7 as stated fails: with three categories loaded, a form whose position field was
  changed to \<open>0\<close> creates a row at position \<open>0\<close>, not \<open>3\<close>.
\<close>

theorem create_at_current_count_counterexample:
  "int (length (categories three_categories)) = 3 \<and>
   table (snd (handleSubmit False None ''d'' None
     (changeSortOrder (lit ''0'') (changeDescription (lit ''Talk'') (changeName (lit ''Chat'')
        (openCreateModal (categories three_categories)))), three_categories))) =
   [cat_a, cat_b, cat_c,
    \<lparr>id_field = ''d'', sort_order = 0, name = lit ''Chat'', description = lit ''Talk'',
     icon = ''message-square'', is_active = True\<rparr>]"
  by (simp add: handleSubmit_create changeSortOrder_def changeDescription_def changeName_def
        openCreateModal_def entered_values three_categories_def)

theorem create_uses_form_position_witness:
  "modal_kind (changeSortOrder (lit ''0'') (changeDescription (lit ''Talk'') (changeName (lit ''Chat'')
        (openCreateModal (categories three_categories))))) = Create \<and>
   trim (lit ''Chat'') \<noteq> [] \<and> trim (lit ''Talk'') \<noteq> [] \<and>
   \<not> isEditMode (changeOrder (lit ''0'') (changeLinkUrl (lit ''/books/2'') (changeTitle (lit ''Summer'')
        (imageUploaded ''https://cdn/banners/3.png'' (openCreateBanner (categories two_banners) idle_form))))) \<and>
   ''https://cdn/banners/3.png'' \<noteq> [] \<and> trim (lit ''Summer'') \<noteq> [] \<and> trim (lit ''/books/2'') \<noteq> [] \<and>
   table (snd (handleSubmit False None ''d'' None
     (changeSortOrder (lit ''0'') (changeDescription (lit ''Talk'') (changeName (lit ''Chat'')
        (openCreateModal (categories three_categories)))), three_categories))) =
     [cat_a, cat_b, cat_c,
      \<lparr>id_field = ''d'', sort_order = 0, name = lit ''Chat'', description = lit ''Talk'',
       icon = ''message-square'', is_active = True\<rparr>] \<and>
   table (snd (handleSubmitBanner None ''d'' ''2024-03-03T00:00:00Z'' None
     (changeOrder (lit ''0'') (changeLinkUrl (lit ''/books/2'') (changeTitle (lit ''Summer'')
        (imageUploaded ''https://cdn/banners/3.png'' (openCreateBanner (categories two_banners) idle_form)))),
      two_banners))) =
     [banner_a, banner_b,
      \<lparr>id_field = ''d'', sort_order = 0, image_url = ''https://cdn/banners/3.png'',
       title = lit ''Summer'', link_url = lit ''/books/2'', banner_is_active = True,
       created_at = ''2024-03-03T00:00:00Z''\<rparr>] \<and>
   table (snd (handleSubmit False None ''d'' None
     (changeDescription (lit ''Talk'') (changeName (lit ''Chat'')
        (openCreateModal (categories three_categories))), three_categories))) =
     [cat_a, cat_b, cat_c,
      \<lparr>id_field = ''d'', sort_order = 3, name = lit ''Chat'', description = lit ''Talk'',
       icon = ''message-square'', is_active = True\<rparr>] \<and>
   table (snd (handleSubmitBanner None ''d'' ''2024-03-03T00:00:00Z'' None
     (changeLinkUrl (lit ''/books/2'') (changeTitle (lit ''Summer'')
        (imageUploaded ''https://cdn/banners/3.png'' (openCreateBanner (categories two_banners) idle_form))),
      two_banners))) =
     [banner_a, banner_b,
      \<lparr>id_field = ''d'', sort_order = 2, image_url = ''https://cdn/banners/3.png'',
       title = lit ''Summer'', link_url = lit ''/books/2'', banner_is_active = True,
       created_at = ''2024-03-03T00:00:00Z''\<rparr>]"
proof -
  let ?modal = "changeSortOrder (lit ''0'') (changeDescription (lit ''Talk'') (changeName (lit ''Chat'')
        (openCreateModal (categories three_categories))))"
  let ?form = "changeOrder (lit ''0'') (changeLinkUrl (lit ''/books/2'') (changeTitle (lit ''Summer'')
        (imageUploaded ''https://cdn/banners/3.png'' (openCreateBanner (categories two_banners) idle_form))))"
  have modal: "?modal = \<lparr>isOpen = True, modal_kind = Create,
      data = \<lparr>data_name = lit ''Chat'', data_description = lit ''Talk'', data_icon = ''message-square'',
              data_sort_order = 0, data_is_active = True\<rparr>,
      modal_id = None, loading = False, modal_error = []\<rparr>"
    by (simp add: changeSortOrder_def changeDescription_def changeName_def openCreateModal_def
          entered_values)
  have form: "?form = \<lparr>formData = \<lparr>form_image_url = ''https://cdn/banners/3.png'',
        form_title = lit ''Summer'', form_link_url = lit ''/books/2'', form_order = 0,
        form_is_active = True\<rparr>, isModalOpen = True, isEditMode = False,
        currentBannerId = None, error_message = [], success_message = []\<rparr>"
    by (simp add: changeOrder_def changeLinkUrl_def changeTitle_def imageUploaded_def
          openCreateBanner_def emptyFormData_def idle_form_def entered_values)
  note pos = create_uses_form_position [where modal = ?modal and form = ?form
      and st = three_categories and bst = two_banners and ui = idle_form
      and n = "lit ''Chat''" and d = "lit ''Talk''"
      and url = "''https://cdn/banners/3.png''" and t = "lit ''Summer''" and l = "lit ''/books/2''"
      and new_id = "''d''" and now = "''2024-03-03T00:00:00Z''" and refetch = None
      and response_is_Error = False]
  have h1: "modal_kind ?modal = Create" by (simp add: modal)
  have h2: "\<not> isEditMode ?form" by (simp add: form)
  have h3: "''https://cdn/banners/3.png'' \<noteq> []" by simp
  have k1: "modal_kind ?modal = Create \<and> trim (data_name (data ?modal)) \<noteq> [] \<and>
            trim (data_description (data ?modal)) \<noteq> []"
    by (simp add: modal entered_values)
  have k2: "\<not> isEditMode ?form \<and> form_image_url (formData ?form) \<noteq> [] \<and>
    trim (form_title (formData ?form)) \<noteq> [] \<and> trim (form_link_url (formData ?form)) \<noteq> []"
    by (simp add: form entered_values)
  from pos k1 have c1: "table (snd (handleSubmit False None ''d'' None (?modal, three_categories))) =
        table three_categories @ [\<lparr>id_field = ''d'', sort_order = data_sort_order (data ?modal),
                      name = data_name (data ?modal), description = data_description (data ?modal),
                      icon = data_icon (data ?modal), is_active = data_is_active (data ?modal)\<rparr>]"
    by blast
  from pos k2 have c2: "table (snd (handleSubmitBanner None ''d'' ''2024-03-03T00:00:00Z'' None (?form, two_banners))) =
        table two_banners @ [\<lparr>id_field = ''d'', sort_order = form_order (formData ?form),
                       image_url = form_image_url (formData ?form), title = form_title (formData ?form),
                       link_url = form_link_url (formData ?form),
                       banner_is_active = form_is_active (formData ?form),
                       created_at = ''2024-03-03T00:00:00Z''\<rparr>]"
    by blast
  from pos entered_values have c3: "table (snd (handleSubmit False None ''d'' None
               (changeDescription (lit ''Talk'') (changeName (lit ''Chat'')
                  (openCreateModal (categories three_categories))), three_categories))) =
        table three_categories @ [\<lparr>id_field = ''d'', sort_order = int (length (categories three_categories)),
                      name = lit ''Chat'', description = lit ''Talk'', icon = ''message-square'',
                      is_active = True\<rparr>]"
    by blast
  from pos entered_values h3 have c4: "table (snd (handleSubmitBanner None ''d'' ''2024-03-03T00:00:00Z'' None
               (changeLinkUrl (lit ''/books/2'') (changeTitle (lit ''Summer'')
                  (imageUploaded ''https://cdn/banners/3.png'' (openCreateBanner (categories two_banners) idle_form))),
                two_banners))) =
        table two_banners @ [\<lparr>id_field = ''d'', sort_order = int (length (categories two_banners)),
                       image_url = ''https://cdn/banners/3.png'', title = lit ''Summer'',
                       link_url = lit ''/books/2'', banner_is_active = True,
                       created_at = ''2024-03-03T00:00:00Z''\<rparr>]"
    by blast
  have d1: "table (snd (handleSubmit False None ''d'' None (?modal, three_categories))) =
     [cat_a, cat_b, cat_c,
      \<lparr>id_field = ''d'', sort_order = 0, name = lit ''Chat'', description = lit ''Talk'',
       icon = ''message-square'', is_active = True\<rparr>]"
    using c1 unfolding modal by (simp add: three_categories_def)
  have d2: "table (snd (handleSubmitBanner None ''d'' ''2024-03-03T00:00:00Z'' None (?form, two_banners))) =
     [banner_a, banner_b,
      \<lparr>id_field = ''d'', sort_order = 0, image_url = ''https://cdn/banners/3.png'',
       title = lit ''Summer'', link_url = lit ''/books/2'', banner_is_active = True,
       created_at = ''2024-03-03T00:00:00Z''\<rparr>]"
    using c2 unfolding form by (simp add: two_banners_def)
  have d3: "table (snd (handleSubmit False None ''d'' None
     (changeDescription (lit ''Talk'') (changeName (lit ''Chat'')
        (openCreateModal (categories three_categories))), three_categories))) =
     [cat_a, cat_b, cat_c,
      \<lparr>id_field = ''d'', sort_order = 3, name = lit ''Chat'', description = lit ''Talk'',
       icon = ''message-square'', is_active = True\<rparr>]"
    unfolding c3 by (simp add: three_categories_def)
  have d4: "table (snd (handleSubmitBanner None ''d'' ''2024-03-03T00:00:00Z'' None
     (changeLinkUrl (lit ''/books/2'') (changeTitle (lit ''Summer'')
        (imageUploaded ''https://cdn/banners/3.png'' (openCreateBanner (categories two_banners) idle_form))),
      two_banners))) =
     [banner_a, banner_b,
      \<lparr>id_field = ''d'', sort_order = 2, image_url = ''https://cdn/banners/3.png'',
       title = lit ''Summer'', link_url = lit ''/books/2'', banner_is_active = True,
       created_at = ''2024-03-03T00:00:00Z''\<rparr>]"
    unfolding c4 by (simp add: two_banners_def)
  show ?thesis
    using h1 h2 h3 entered_values d1 d2 d3 d4 by blast
qed

section \<open>Verification: daily traffic statistics\<close>

lemma Map_set_fresh: "k \<notin> fst ` set m \<Longrightarrow> Map_set k v m = m @ [(k, v)]"
  by (induction m) auto

lemma dateStr_next: "dateStr (d + DAY) = dateStr d + 1"
  by (simp add: dateStr_def DAY_def)

lemma days_between_next:
  assumes "d \<le> e"
  shows "nat ((e - d) div DAY + 1) = Suc (nat ((e - (d + DAY)) div DAY + 1))"
proof -
  have "(e - (d + DAY)) div DAY = (e - d) div DAY - 1"
    by (simp add: DAY_def)
  moreover have "0 \<le> (e - d) div DAY"
    using assms by (simp add: DAY_def)
  ultimately show ?thesis by simp
qed

lemma days_between_none: "\<not> d \<le> e \<Longrightarrow> nat ((e - d) div DAY + 1) = 0"
  by (simp add: DAY_def)

lemma initDays_closed:
  "\<forall>k \<in> fst ` set m. k < dateStr d \<Longrightarrow>
   initDays d e m =
     m @ map (\<lambda>i. (dateStr d + int i, \<lparr>visits = 0, users = {}\<rparr>)) [0..<nat ((e - d) div DAY + 1)]"
proof (induction d e m rule: initDays.induct)
  case (1 d e m)
  show ?case
  proof (cases "d \<le> e")
    case True
    have fresh: "dateStr d \<notin> fst ` set m"
      using "1.prems" by auto
    have below: "\<forall>k \<in> fst ` set (Map_set (dateStr d) \<lparr>visits = 0, users = {}\<rparr> m). k < dateStr (d + DAY)"
      using "1.prems" by (auto simp: Map_set_fresh [OF fresh] dateStr_next)
    have "initDays d e m = initDays (d + DAY) e (Map_set (dateStr d) \<lparr>visits = 0, users = {}\<rparr> m)"
      using True by (subst initDays.simps) simp
    also have "\<dots> = (m @ [(dateStr d, \<lparr>visits = 0, users = {}\<rparr>)]) @
        map (\<lambda>i. (dateStr (d + DAY) + int i, \<lparr>visits = 0, users = {}\<rparr>))
          [0..<nat ((e - (d + DAY)) div DAY + 1)]"
      using "1.IH" [OF True below] by (simp add: Map_set_fresh [OF fresh])
    also have "\<dots> = m @ map (\<lambda>i. (dateStr d + int i, \<lparr>visits = 0, users = {}\<rparr>))
          [0..<Suc (nat ((e - (d + DAY)) div DAY + 1))]"
      by (simp add: dateStr_next map_upt_Suc del: upt_Suc)
    finally show ?thesis
      by (simp only: days_between_next [OF True])
  next
    case False
    then show ?thesis
      by (subst initDays.simps) (simp add: days_between_none)
  qed
qed


lemma initialised_days_eq:
  "initialised_days s e = map (\<lambda>i. dateStr s + int i) [0..<nat ((e - s) div DAY + 1)]"
  by (simp add: initialised_days_def initDays_closed comp_def)

lemma initDays_zero:
  "initDays s e [] = map (\<lambda>d. (d, \<lparr>visits = 0, users = {}\<rparr>)) (initialised_days s e)"
  by (simp add: initialised_days_eq initDays_closed comp_def)

lemma sorted_initialised_days: "sorted (initialised_days s e)"
  by (simp add: initialised_days_eq sorted_wrt_map sorted_wrt_upt comp_def)

lemma strictly_ascending_days: "sorted_wrt (<) (initialised_days s e)"
  by (simp add: initialised_days_eq sorted_wrt_map)

lemma distinct_initialised_days: "distinct (initialised_days s e)"
  using strictly_ascending_days [of s e] by (simp only: strict_sorted_iff)

lemma set_initialised_days:
  "set (initialised_days s e) = {dateStr s .. dateStr s + (e - s) div DAY}"
proof -
  have "set (initialised_days s e) = (\<lambda>i. dateStr s + int i) ` {0..<nat ((e - s) div DAY + 1)}"
    by (simp add: initialised_days_eq)
  also have "\<dots> = {dateStr s .. dateStr s + (e - s) div DAY}"
  proof (intro set_eqI iffI)
    fix x assume "x \<in> (\<lambda>i. dateStr s + int i) ` {0..<nat ((e - s) div DAY + 1)}"
    then show "x \<in> {dateStr s .. dateStr s + (e - s) div DAY}" by auto
  next
    fix x assume x: "x \<in> {dateStr s .. dateStr s + (e - s) div DAY}"
    show "x \<in> (\<lambda>i. dateStr s + int i) ` {0..<nat ((e - s) div DAY + 1)}"
    proof (rule image_eqI [where x = "nat (x - dateStr s)"])
      show "x = dateStr s + int (nat (x - dateStr s))" using x by simp
      show "nat (x - dateStr s) \<in> {0..<nat ((e - s) div DAY + 1)}" using x by simp
    qed
  qed
  finally show ?thesis .
qed


lemma Map_set_present:
  "distinct (map fst m) \<Longrightarrow> k \<in> fst ` set m \<Longrightarrow>
   Map_set k v m = map (\<lambda>e. if fst e = k then (k, v) else e) m"
proof (induction m)
  case Nil
  then show ?case by simp
next
  case (Cons a m)
  show ?case
  proof (cases "fst a = k")
    case True
    then have "k \<notin> fst ` set m" using Cons.prems(1) by auto
    then have "map (\<lambda>e. if fst e = k then (k, v) else e) m = m"
      by (intro map_idI) auto
    with True show ?thesis by simp
  next
    case False
    with Cons show ?thesis by auto
  qed
qed

text \<open>One event changes the entry of its day, if there is one, and no other entry.\<close>

lemma addLog_closed:
  assumes "distinct (map fst m)"
  shows "addLog l m =
         map (\<lambda>e. if fst e = dateStr (logged_in_at l)
                   then (fst e, (snd e)\<lparr>visits := visits (snd e) + 1,
                                         users := insert (user_id l) (users (snd e))\<rparr>)
                   else e) m"
proof (cases "map_of m (dateStr (logged_in_at l))")
  case None
  then have "dateStr (logged_in_at l) \<notin> fst ` set m"
    by (simp add: map_of_eq_None_iff)
  then have "\<And>e. e \<in> set m \<Longrightarrow> fst e \<noteq> dateStr (logged_in_at l)"
    by (metis imageI)
  then have "map (\<lambda>e. if fst e = dateStr (logged_in_at l)
                   then (fst e, (snd e)\<lparr>visits := visits (snd e) + 1,
                                         users := insert (user_id l) (users (snd e))\<rparr>)
                   else e) m = m"
    by (intro map_idI) simp
  with None show ?thesis by (simp add: addLog_def Map_get_def)
next
  case (Some v)
  then have mem: "(dateStr (logged_in_at l), v) \<in> set m"
    by (rule map_of_SomeD)
  then have k: "dateStr (logged_in_at l) \<in> fst ` set m"
    by force
  have "\<And>e. e \<in> set m \<Longrightarrow> fst e = dateStr (logged_in_at l) \<Longrightarrow> snd e = v"
    using assms mem by (metis eq_key_imp_eq_value prod.collapse)
  then have eq: "map (\<lambda>e. if fst e = dateStr (logged_in_at l)
                   then (dateStr (logged_in_at l),
                         v\<lparr>visits := visits v + 1, users := insert (user_id l) (users v)\<rparr>)
                   else e) m =
        map (\<lambda>e. if fst e = dateStr (logged_in_at l)
                   then (fst e, (snd e)\<lparr>visits := visits (snd e) + 1,
                                         users := insert (user_id l) (users (snd e))\<rparr>)
                   else e) m"
    by (intro map_cong) auto
  have "addLog l m =
        Map_set (dateStr (logged_in_at l))
          (v\<lparr>visits := visits v + 1, users := insert (user_id l) (users v)\<rparr>) m"
    using Some by (simp add: addLog_def Map_get_def)
  also have "\<dots> = map (\<lambda>e. if fst e = dateStr (logged_in_at l)
                   then (dateStr (logged_in_at l),
                         v\<lparr>visits := visits v + 1, users := insert (user_id l) (users v)\<rparr>)
                   else e) m"
    by (rule Map_set_present [OF assms k])
  also note eq
  finally show ?thesis .
qed

lemma addLog_keys: "distinct (map fst m) \<Longrightarrow> map fst (addLog l m) = map fst m"
  by (simp add: addLog_closed comp_def if_distrib cong: if_cong)

text \<open>All events: every entry gains the events of its day.\<close>

lemma fold_addLog_closed:
  "distinct (map fst m) \<Longrightarrow>
   fold addLog events m =
     map (\<lambda>e. (fst e,
               (snd e)\<lparr>visits := visits (snd e) +
                                    length (filter (\<lambda>l. dateStr (logged_in_at l) = fst e) events),
                       users := users (snd e) \<union>
                                    user_id ` set (filter (\<lambda>l. dateStr (logged_in_at l) = fst e) events)\<rparr>)) m"
proof (induction events arbitrary: m)
  case Nil
  then show ?case by (simp add: map_idI)
next
  case (Cons l events)
  have d: "distinct (map fst (addLog l m))"
    using Cons.prems by (simp add: addLog_keys)
  have "fold addLog (l # events) m = fold addLog events (addLog l m)"
    by simp
  also note Cons.IH [OF d]
  also have "map (\<lambda>e. (fst e,
               (snd e)\<lparr>visits := visits (snd e) +
                                    length (filter (\<lambda>l. dateStr (logged_in_at l) = fst e) events),
                       users := users (snd e) \<union>
                                    user_id ` set (filter (\<lambda>l. dateStr (logged_in_at l) = fst e) events)\<rparr>))
          (addLog l m) =
        map (\<lambda>e. (fst e,
               (snd e)\<lparr>visits := visits (snd e) +
                                    length (filter (\<lambda>l. dateStr (logged_in_at l) = fst e) (l # events)),
                       users := users (snd e) \<union>
                                    user_id ` set (filter (\<lambda>l. dateStr (logged_in_at l) = fst e) (l # events))\<rparr>)) m"
    unfolding addLog_closed [OF Cons.prems] map_map
    by (intro map_cong) auto
  finally show ?case .
qed


lemma date_bucket_of: "map date (map (bucket_of events) ds) = ds"
  by (simp add: comp_def bucket_of_def)

text \<open>The code computes, for each initialised day in order, the bucket of that day.\<close>

lemma aggregate_buckets:
  "aggregate s e events = map (bucket_of events) (initialised_days s e)"
proof -
  let ?ds = "initialised_days s e"
  have d: "distinct (map fst (map (\<lambda>d. (d, \<lparr>visits = 0, users = {}\<rparr>)) ?ds))"
    by (simp add: comp_def distinct_initialised_days)
  have "fold addLog events (initDays s e []) =
        map (\<lambda>d. (d, \<lparr>visits = length (filter (\<lambda>l. dateStr (logged_in_at l) = d) events),
                       users = user_id ` set (filter (\<lambda>l. dateStr (logged_in_at l) = d) events)\<rparr>)) ?ds"
    unfolding initDays_zero fold_addLog_closed [OF d] by (simp add: comp_def)
  then have "aggregate s e events = sort_key date (map (bucket_of events) ?ds)"
    by (simp add: aggregate_def processedStats_def comp_def bucket_of_def [abs_def])
  also have "\<dots> = map (bucket_of events) ?ds"
    by (rule sort_key_id_if_sorted) (simp only: date_bucket_of sorted_initialised_days)
  finally show ?thesis .
qed

lemma count_disjoint:
  "(\<And>x. x \<in> set xs \<Longrightarrow> \<not> (P x \<and> Q x)) \<Longrightarrow>
   length (filter P xs) + length (filter Q xs) = length (filter (\<lambda>x. P x \<or> Q x) xs)"
  by (induction xs) auto

lemma count_by_key:
  "distinct ks \<Longrightarrow>
   sum_list (map (\<lambda>k. length (filter (\<lambda>x. f x = k) xs)) ks) = length (filter (\<lambda>x. f x \<in> set ks) xs)"
proof (induction ks)
  case Nil
  then show ?case by simp
next
  case (Cons k ks)
  have "length (filter (\<lambda>x. f x = k) xs) + length (filter (\<lambda>x. f x \<in> set ks) xs) =
        length (filter (\<lambda>x. f x = k \<or> f x \<in> set ks) xs)"
    using Cons.prems by (intro count_disjoint) auto
  with Cons show ?case by simp
qed

lemma total_visits:
  "sum_list (map stat_visits (aggregate s e events)) =
   length (filter (\<lambda>l. dateStr (logged_in_at l) \<in> set (initialised_days s e)) events)"
proof -
  have "map stat_visits (aggregate s e events) =
        map (\<lambda>d. length (filter (\<lambda>l. dateStr (logged_in_at l) = d) events)) (initialised_days s e)"
    by (simp add: aggregate_buckets comp_def bucket_of_def)
  then show ?thesis
    by (simp only: count_by_key [OF distinct_initialised_days])
qed

lemma bucket_of_filter:
  "d \<in> D \<Longrightarrow> bucket_of (filter (\<lambda>l. dateStr (logged_in_at l) \<in> D) events) d = bucket_of events d"
proof -
  assume "d \<in> D"
  then have "filter (\<lambda>l. dateStr (logged_in_at l) = d) (filter (\<lambda>l. dateStr (logged_in_at l) \<in> D) events) =
        filter (\<lambda>l. dateStr (logged_in_at l) = d) events"
    by (auto simp: filter_filter intro: filter_cong)
  then show ?thesis
    by (simp add: bucket_of_def)
qed

lemma out_of_range_dropped:
  "aggregate s e (filter (\<lambda>l. dateStr (logged_in_at l) \<in> set (initialised_days s e)) events) =
   aggregate s e events"
  unfolding aggregate_buckets
  by (intro map_cong refl bucket_of_filter)

lemma fetchStats_ok:
  "fetchStats now1 now2 (Inr events) st =
   st\<lparr>traffic_error := [],
      stats := aggregate (now2 - (if timeRange st = Range7d then 7 else 30) * DAY) now1 events,
      traffic_loading := False\<rparr>"
  by (simp add: fetchStats_def Let_def)

lemma scenario_days: "initialised_days DAY (3 * DAY) = [1, 2, 3]"
  by (simp add: initialised_days_eq dateStr_def DAY_def upt_rec)

lemma scenario_buckets:
  "aggregate DAY (3 * DAY) scenario_events =
     [\<lparr>date = 1, stat_visits = 3, unique_users = 2\<rparr>,
      \<lparr>date = 2, stat_visits = 0, unique_users = 0\<rparr>,
      \<lparr>date = 3, stat_visits = 1, unique_users = 1\<rparr>]"
  unfolding aggregate_buckets scenario_days
  by (simp add: bucket_of_def scenario_events_def dateStr_def DAY_def)

text \<open>
  Claim C5. For every range and every event sequence the output is, for each initialised
  day in order, the bucket of that day: its count is the number of events whose timestamp
  truncates to that day and its distinct count the number of different users among them.
  The initialised days are those from the day of the start on, one for every whole day
  that fits between the start and the end.
  So the counts add up to the number of events whose day is an initialised day, events of
  other days change nothing, and no error is reported. The three-day scenario of the
  specification comes out as stated.
\<close>
theorem events_counted_in_their_day:
  "aggregate startDate endDate events = map (bucket_of events) (initialised_days startDate endDate) \<and>
   set (initialised_days startDate endDate) =
     {dateStr startDate .. dateStr startDate + (endDate - startDate) div DAY} \<and>
   sum_list (map stat_visits (aggregate startDate endDate events)) =
     length (filter (\<lambda>l. dateStr (logged_in_at l) \<in> set (initialised_days startDate endDate)) events) \<and>
   aggregate startDate endDate
     (filter (\<lambda>l. dateStr (logged_in_at l) \<in> set (initialised_days startDate endDate)) events) =
     aggregate startDate endDate events \<and>
   traffic_error (fetchStats now1 now2 (Inr events) st) = [] \<and>
   aggregate DAY (3 * DAY) scenario_events =
     [\<lparr>date = 1, stat_visits = 3, unique_users = 2\<rparr>,
      \<lparr>date = 2, stat_visits = 0, unique_users = 0\<rparr>,
      \<lparr>date = 3, stat_visits = 1, unique_users = 1\<rparr>]"
proof (intro conjI)
  show "aggregate startDate endDate events = map (bucket_of events) (initialised_days startDate endDate)"
    by (rule aggregate_buckets)
  show "set (initialised_days startDate endDate) =
     {dateStr startDate .. dateStr startDate + (endDate - startDate) div DAY}"
    by (rule set_initialised_days)
  show "sum_list (map stat_visits (aggregate startDate endDate events)) =
     length (filter (\<lambda>l. dateStr (logged_in_at l) \<in> set (initialised_days startDate endDate)) events)"
    by (rule total_visits)
  show "aggregate startDate endDate
     (filter (\<lambda>l. dateStr (logged_in_at l) \<in> set (initialised_days startDate endDate)) events) =
     aggregate startDate endDate events"
    by (rule out_of_range_dropped)
  show "traffic_error (fetchStats now1 now2 (Inr events) st) = []"
    by (simp add: fetchStats_ok)
  show "aggregate DAY (3 * DAY) scenario_events =
     [\<lparr>date = 1, stat_visits = 3, unique_users = 2\<rparr>,
      \<lparr>date = 2, stat_visits = 0, unique_users = 0\<rparr>,
      \<lparr>date = 3, stat_visits = 1, unique_users = 1\<rparr>]"
    by (rule scenario_buckets)
qed

lemma aggregate_empty_range: "endDate < startDate \<Longrightarrow> aggregate startDate endDate events = []"
  by (simp add: aggregate_buckets initialised_days_eq days_between_none)

text \<open>
  Claim C6, as amended. When the start lies after the end the loop initialises no day: the
  aggregation returns the empty bucket sequence, whatever the events, and \<^verbatim>\<open>fetchStats\<close>
  stores it and shows no error.
\<close>
theorem reversed_range_gives_no_buckets:
  "(endDate < startDate \<longrightarrow> aggregate startDate endDate events = []) \<and>
   (now1 < now2 - (if timeRange st = Range7d then 7 else 30) * DAY \<longrightarrow>
      fetchStats now1 now2 (Inr events) st =
        st\<lparr>traffic_error := [], stats := [], traffic_loading := False\<rparr>)"
  by (simp add: fetchStats_ok aggregate_empty_range)

text \<open>
  Claim C6 as stated fails: for a start two days after the end the result is the empty
  sequence, not an error.
\<close>
theorem reversed_range_counterexample:
  "3 * DAY < 5 * DAY \<and> aggregate (5 * DAY) (3 * DAY) scenario_events = [] \<and>
   fetchStats (3 * DAY) (12 * DAY) (Inr scenario_events) fresh_traffic_page =
     \<lparr>traffic_loading = False, traffic_error = [], stats = [], timeRange = Range7d\<rparr>"
proof -
  have h1: "3 * DAY < 5 * DAY" by (simp add: DAY_def)
  have h2: "3 * DAY < 12 * DAY - 7 * DAY" by (simp add: DAY_def)
  have "fetchStats (3 * DAY) (12 * DAY) (Inr scenario_events) fresh_traffic_page =
     \<lparr>traffic_loading = False, traffic_error = [], stats = [], timeRange = Range7d\<rparr>"
    by (simp add: fetchStats_ok fresh_traffic_page_def aggregate_empty_range [OF h1])
  with h1 aggregate_empty_range [OF h1] show ?thesis by blast
qed

theorem reversed_range_gives_no_buckets_witness:
  "3 * DAY < 5 * DAY \<and> aggregate (5 * DAY) (3 * DAY) scenario_events = [] \<and>
   3 * DAY < 12 * DAY - (if timeRange fresh_traffic_page = Range7d then 7 else 30) * DAY \<and>
   fetchStats (3 * DAY) (12 * DAY) (Inr scenario_events) fresh_traffic_page =
     fresh_traffic_page\<lparr>traffic_error := [], stats := [], traffic_loading := False\<rparr>"
proof -
  have h1: "3 * DAY < 5 * DAY" by (simp add: DAY_def)
  have h2: "3 * DAY < 12 * DAY - (if timeRange fresh_traffic_page = Range7d then 7 else 30) * DAY"
    by (simp add: DAY_def fresh_traffic_page_def)
  note r = reversed_range_gives_no_buckets [of "3 * DAY" "5 * DAY" scenario_events "3 * DAY" "12 * DAY"
      fresh_traffic_page]
  from r h1 have c1: "aggregate (5 * DAY) (3 * DAY) scenario_events = []" by blast
  from r h2 have c2: "fetchStats (3 * DAY) (12 * DAY) (Inr scenario_events) fresh_traffic_page =
     fresh_traffic_page\<lparr>traffic_error := [], stats := [], traffic_loading := False\<rparr>" by blast
  show ?thesis using h1 h2 c1 c2 by blast
qed

text \<open>What does hold of the buckets for every range and every event sequence.\<close>

lemma aggregate_length:
  "length (aggregate startDate endDate events) = nat ((endDate - startDate) div DAY + 1)"
  by (simp add: aggregate_buckets initialised_days_eq)

lemma aggregate_dates_ascending:
  "sorted_wrt (<) (map date (aggregate startDate endDate events))"
  by (simp only: aggregate_buckets date_bucket_of strictly_ascending_days)

lemma aggregate_no_events:
  "aggregate startDate endDate [] =
   map (\<lambda>d. \<lparr>date = d, stat_visits = 0, unique_users = 0\<rparr>) (initialised_days startDate endDate)"
  by (simp add: aggregate_buckets bucket_of_def [abs_def])

lemma div_diff_general:
  fixes s e D :: int
  assumes "0 < D"
  shows "(e - s) div D = e div D - s div D - (if e mod D < s mod D then 1 else 0)"
proof -
  have eq: "e - s = (e div D - s div D) * D + (e mod D - s mod D)"
    by (simp add: algebra_simps)
  have b: "0 \<le> e mod D" "e mod D < D" "0 \<le> s mod D" "s mod D < D"
    using assms by simp_all
  show ?thesis
  proof (cases "e mod D < s mod D")
    case True
    then have "e - s = (e div D - s div D - 1) * D + (e mod D - s mod D + D)"
      using eq by (simp add: algebra_simps)
    moreover have "0 \<le> e mod D - s mod D + D" "e mod D - s mod D + D < D"
      using b True by linarith+
    ultimately have "(e - s) div D = e div D - s div D - 1"
      by (metis (no_types, lifting) add.commute div_mult_self2 div_pos_pos_trivial assms
            less_irrefl add.right_neutral mult.commute)
    with True show ?thesis by simp
  next
    case False
    moreover have "0 \<le> e mod D - s mod D" "e mod D - s mod D < D"
      using b False by linarith+
    ultimately have "(e - s) div D = e div D - s div D"
      using eq
      by (metis (no_types, lifting) add.commute div_mult_self2 div_pos_pos_trivial assms
            less_irrefl add.right_neutral mult.commute)
    with False show ?thesis by simp
  qed
qed


text \<open>
  The buckets are as many as the calendar days from the start to the end exactly when the
  start is not later in its day than the end is in its own.
\<close>

lemma bucket_count_is_day_count_iff:
  assumes "startDate \<le> endDate"
  shows "length (aggregate startDate endDate events) = nat (dateStr endDate - dateStr startDate + 1)
         \<longleftrightarrow> startDate mod DAY \<le> endDate mod DAY"
proof -
  have D: "0 < DAY" by (simp add: DAY_def)
  have le: "dateStr startDate \<le> dateStr endDate"
    using assms D by (simp add: dateStr_def zdiv_mono1)
  have nonneg: "0 \<le> (endDate - startDate) div DAY"
    using assms D by (simp add: pos_imp_zdiv_nonneg_iff)
  show ?thesis
    using le nonneg
    by (auto simp: aggregate_length dateStr_def div_diff_general [OF D] split: if_splits)
qed

text \<open>When both clock readings are the same instant, every day of the range has its bucket.\<close>

lemma fetchStats_same_instant:
  "length (stats (fetchStats now now (Inr events) st)) =
     nat (dateStr now - dateStr (now - (if timeRange st = Range7d then 7 else 30) * DAY) + 1)"
proof -
  have "now - (if timeRange st = Range7d then 7 else 30) * DAY \<le> now"
    by (simp add: DAY_def)
  moreover have "(now - (if timeRange st = Range7d then 7 else 30) * DAY) mod DAY = now mod DAY"
    by (subst mod_diff_right_eq [symmetric]) simp
  ultimately show ?thesis
    using bucket_count_is_day_count_iff
      [of "now - (if timeRange st = Range7d then 7 else 30) * DAY" now events]
    by (simp add: fetchStats_ok)
qed

text \<open>
  Claim C4 fails on the code. \<^verbatim>\<open>endDate\<close> and \<^verbatim>\<open>startDate\<close> come from two clock readings;
  when the clock moves by one millisecond between them (here at noon of day 8, range
  \<^verbatim>\<open>7d\<close>), the start is at noon plus one millisecond of day 1, the loop stops before day
  8, and the result has seven buckets for the eight calendar days from day 1 to day 8:
  today is missing, and with it the login of that morning.
\<close>
theorem today_bucket_missing:
  "dateStr (8 * DAY + 43200001 - 7 * DAY) = 1 \<and> dateStr (8 * DAY + 43200000) = 8 \<and>
   8 * DAY + 43200001 - 7 * DAY \<le> 8 * DAY + 43200000 \<and>
   stats (fetchStats (8 * DAY + 43200000) (8 * DAY + 43200001)
            (Inr [\<lparr>logged_in_at = 8 * DAY + 3600000, user_id = ''userA''\<rparr>]) fresh_traffic_page) =
     [\<lparr>date = 1, stat_visits = 0, unique_users = 0\<rparr>,
      \<lparr>date = 2, stat_visits = 0, unique_users = 0\<rparr>,
      \<lparr>date = 3, stat_visits = 0, unique_users = 0\<rparr>,
      \<lparr>date = 4, stat_visits = 0, unique_users = 0\<rparr>,
      \<lparr>date = 5, stat_visits = 0, unique_users = 0\<rparr>,
      \<lparr>date = 6, stat_visits = 0, unique_users = 0\<rparr>,
      \<lparr>date = 7, stat_visits = 0, unique_users = 0\<rparr>]"
  by (simp add: fetchStats_ok fresh_traffic_page_def aggregate_buckets initialised_days_eq
        bucket_of_def dateStr_def DAY_def upt_rec)

section \<open>Verification: importing chapters from CSV\<close>

lemma split_whitespace_step:
  "dropWhile (\<lambda>c. \<not> isWhiteSpace c) S \<noteq> [] \<Longrightarrow>
   split_whitespace S =
     takeWhile (\<lambda>c. \<not> isWhiteSpace c) S #
     split_whitespace (dropWhile isWhiteSpace (dropWhile (\<lambda>c. \<not> isWhiteSpace c) S))"
  using split_whitespace.simps [of S] unfolding Let_def by (simp only: if_False)

lemma split_whitespace_last:
  "dropWhile (\<lambda>c. \<not> isWhiteSpace c) S = [] \<Longrightarrow>
   split_whitespace S = [takeWhile (\<lambda>c. \<not> isWhiteSpace c) S]"
  using split_whitespace.simps [of S] unfolding Let_def by (simp only: simp_thms if_True)

lemma whitespace_tokens_skip:
  "whitespace_tokens (dropWhile isWhiteSpace s) = whitespace_tokens s"
  by (subst (1 2) whitespace_tokens.simps) (simp add: dropWhile_idem)

lemma whitespace_tokens_Nil: "whitespace_tokens [] = []"
  by (subst whitespace_tokens.simps) simp

lemma whitespace_tokens_word:
  assumes "s \<noteq> []" "\<not> isWhiteSpace (hd s)"
  shows "whitespace_tokens s =
         takeWhile (\<lambda>c. \<not> isWhiteSpace c) s # whitespace_tokens (dropWhile (\<lambda>c. \<not> isWhiteSpace c) s)"
proof -
  have "dropWhile isWhiteSpace s = s"
    using assms by (cases s) simp_all
  then show ?thesis
    using assms(1) by (subst whitespace_tokens.simps) (simp add: Let_def)
qed

text \<open>Dropping the empty pieces of the split leaves the tokens.\<close>

lemma split_whitespace_tokens:
  "filter (\<lambda>t. t \<noteq> []) (split_whitespace s) = whitespace_tokens s"
proof (induction s rule: split_whitespace.induct)
  case (1 S)
  let ?T = "takeWhile (\<lambda>c. \<not> isWhiteSpace c) S"
  let ?rest = "dropWhile (\<lambda>c. \<not> isWhiteSpace c) S"
  show ?case
  proof (cases "?rest = []")
    case True
    then have T: "?T = S"
      by (metis append_Nil2 takeWhile_dropWhile_id)
    have split: "split_whitespace S = [S]"
      using split_whitespace_last [OF True] by (simp only: T)
    show ?thesis
    proof (cases "S = []")
      case True
      with split show ?thesis by (simp add: whitespace_tokens_Nil)
    next
      case False
      then have "\<not> isWhiteSpace (hd S)"
        using T by (cases S) (auto split: if_splits)
      from whitespace_tokens_word [OF False this] show ?thesis
        using False True T by (simp add: split whitespace_tokens_Nil)
    qed
  next
    case False
    have split: "split_whitespace S = ?T # split_whitespace (dropWhile isWhiteSpace ?rest)"
      by (rule split_whitespace_step [OF False])
    have IH: "filter (\<lambda>t. t \<noteq> []) (split_whitespace (dropWhile isWhiteSpace ?rest)) =
              whitespace_tokens ?rest"
      using "1.IH" [OF refl refl False] by (simp add: whitespace_tokens_skip)
    show ?thesis
    proof (cases "?T = []")
      case True
      then have S: "?rest = S"
        by (metis append_Nil takeWhile_dropWhile_id)
      show ?thesis
        using True IH S by (simp add: split)
    next
      case nonempty: False
      then have ne: "S \<noteq> []"
        by auto
      then obtain c cs where S: "S = c # cs"
        by (cases S) auto
      have "\<not> isWhiteSpace c"
        using nonempty unfolding S by (simp split: if_splits)
      then have "\<not> isWhiteSpace (hd S)"
        by (simp add: S)
      from whitespace_tokens_word [OF ne this] show ?thesis
        using nonempty IH by (simp add: split)
    qed
  qed
qed

lemma dropWhile_append_all: "list_all P xs \<Longrightarrow> dropWhile P (xs @ ys) = dropWhile P ys"
  by (induction xs) simp_all

lemma dropWhile_all: "list_all P xs \<Longrightarrow> dropWhile P xs = []"
  by (induction xs) simp_all

text \<open>White space at the end of a string adds no token.\<close>

lemma whitespace_tokens_trailing:
  "list_all isWhiteSpace w \<Longrightarrow> whitespace_tokens (x @ w) = whitespace_tokens x"
proof (induction x rule: whitespace_tokens.induct)
  case (1 s)
  let ?r = "dropWhile isWhiteSpace s"
  show ?case
  proof (cases "?r = []")
    case True
    then have "list_all isWhiteSpace s"
      by (simp add: list_all_iff dropWhile_eq_Nil_conv)
    then have "dropWhile isWhiteSpace (s @ w) = []"
      using "1.prems" by (simp add: dropWhile_append_all dropWhile_all)
    then have "whitespace_tokens (s @ w) = []"
      by (subst whitespace_tokens.simps) simp
    moreover have "whitespace_tokens s = []"
      using True by (subst whitespace_tokens.simps) simp
    ultimately show ?thesis by simp
  next
    case False
    then obtain c where c: "c \<in> set s" "\<not> isWhiteSpace c"
      by (auto simp: dropWhile_eq_Nil_conv)
    then have r: "dropWhile isWhiteSpace (s @ w) = ?r @ w"
      by (auto simp: dropWhile_append1)
    have w: "takeWhile (\<lambda>c. \<not> isWhiteSpace c) w = []" "dropWhile (\<lambda>c. \<not> isWhiteSpace c) w = w"
      using "1.prems" by (cases w; simp)+
    have tk: "takeWhile (\<lambda>c. \<not> isWhiteSpace c) (?r @ w) = takeWhile (\<lambda>c. \<not> isWhiteSpace c) ?r"
    proof (cases "\<forall>x \<in> set ?r. \<not> isWhiteSpace x")
      case True
      then have a: "takeWhile (\<lambda>c. \<not> isWhiteSpace c) ?r = ?r"
        by (simp only: takeWhile_eq_all_conv)
      have b: "takeWhile (\<lambda>c. \<not> isWhiteSpace c) (?r @ w) =
                     ?r @ takeWhile (\<lambda>c. \<not> isWhiteSpace c) w"
        using True by (intro takeWhile_append2) blast
      show ?thesis unfolding b a w by simp
    next
      case False
      then obtain x where "x \<in> set ?r" "\<not> \<not> isWhiteSpace x" by blast
      then show ?thesis by (rule takeWhile_append1)
    qed
    have dr: "dropWhile (\<lambda>c. \<not> isWhiteSpace c) (?r @ w) = dropWhile (\<lambda>c. \<not> isWhiteSpace c) ?r @ w"
    proof (cases "\<forall>x \<in> set ?r. \<not> isWhiteSpace x")
      case True
      then have a: "dropWhile (\<lambda>c. \<not> isWhiteSpace c) ?r = []"
        by (simp only: dropWhile_eq_Nil_conv)
      have b: "dropWhile (\<lambda>c. \<not> isWhiteSpace c) (?r @ w) =
                     dropWhile (\<lambda>c. \<not> isWhiteSpace c) w"
        using True by (intro dropWhile_append2) blast
      show ?thesis unfolding b a w by simp
    next
      case False
      then obtain x where "x \<in> set ?r" "\<not> \<not> isWhiteSpace x" by blast
      then show ?thesis by (rule dropWhile_append1)
    qed
    have "whitespace_tokens (s @ w) =
          takeWhile (\<lambda>c. \<not> isWhiteSpace c) ?r #
          whitespace_tokens (dropWhile (\<lambda>c. \<not> isWhiteSpace c) ?r @ w)"
      using False by (subst whitespace_tokens.simps) (simp add: r tk dr Let_def)
    also have "whitespace_tokens (dropWhile (\<lambda>c. \<not> isWhiteSpace c) ?r @ w) =
          whitespace_tokens (dropWhile (\<lambda>c. \<not> isWhiteSpace c) ?r)"
      by (rule "1.IH" [OF refl False "1.prems"])
    also have "takeWhile (\<lambda>c. \<not> isWhiteSpace c) ?r #
          whitespace_tokens (dropWhile (\<lambda>c. \<not> isWhiteSpace c) ?r) = whitespace_tokens s"
      using False by (subst (2) whitespace_tokens.simps) (simp add: Let_def)
    finally show ?thesis .
  qed
qed

lemma trim_decompose:
  "\<exists>w. list_all isWhiteSpace w \<and> dropWhile isWhiteSpace s = trim s @ w"
proof -
  let ?u = "dropWhile isWhiteSpace s"
  have "rev ?u = takeWhile isWhiteSpace (rev ?u) @ dropWhile isWhiteSpace (rev ?u)"
    by simp
  then have "?u = rev (dropWhile isWhiteSpace (rev ?u)) @ rev (takeWhile isWhiteSpace (rev ?u))"
    by (metis rev_append rev_rev_ident)
  moreover have "list_all isWhiteSpace (rev (takeWhile isWhiteSpace (rev ?u)))"
    by (simp add: list_all_iff) (meson set_takeWhileD)
  ultimately show ?thesis
    unfolding trim_def by blast
qed

lemma whitespace_tokens_trim: "whitespace_tokens (trim s) = whitespace_tokens s"
proof -
  from trim_decompose [of s] obtain w where
    w: "list_all isWhiteSpace w" "dropWhile isWhiteSpace s = trim s @ w" by blast
  have "whitespace_tokens s = whitespace_tokens (trim s @ w)"
    using whitespace_tokens_skip [of s] by (simp add: w(2))
  then show ?thesis
    by (simp add: whitespace_tokens_trailing [OF w(1)])
qed

lemma wordCount_tokens:
  "length (filter (\<lambda>t. t \<noteq> []) (split_whitespace (trim content))) =
   length (whitespace_tokens content)"
  by (simp add: split_whitespace_tokens whitespace_tokens_trim)


lemma lit_true: "lit ''true'' = [0x74, 0x72, 0x75, 0x65]"
  by (simp add: lit_def)

text \<open>The strings that compare equal to \<^verbatim>\<open>true\<close> when case is ignored.\<close>

lemma toLowerCase_true:
  "toLowerCase s = lit ''true'' \<longleftrightarrow>
   (\<exists>a b c d. s = [a, b, c, d] \<and> a \<in> {0x74, 0x54} \<and> b \<in> {0x72, 0x52} \<and>
                c \<in> {0x75, 0x55} \<and> d \<in> {0x65, 0x45})"
proof
  assume "toLowerCase s = lit ''true''"
  then obtain a b c d where s: "s = [a, b, c, d]"
    and l: "(if 0x41 \<le> a \<and> a \<le> 0x5A then a + 0x20 else a) = 0x74"
           "(if 0x41 \<le> b \<and> b \<le> 0x5A then b + 0x20 else b) = 0x72"
           "(if 0x41 \<le> c \<and> c \<le> 0x5A then c + 0x20 else c) = 0x75"
           "(if 0x41 \<le> d \<and> d \<le> 0x5A then d + 0x20 else d) = 0x65"
    unfolding toLowerCase_def lit_true by (auto simp: map_eq_Cons_conv)
  from l have "a \<in> {0x74, 0x54}" "b \<in> {0x72, 0x52}" "c \<in> {0x75, 0x55}" "d \<in> {0x65, 0x45}"
    by (auto split: if_splits)
  with s show "\<exists>a b c d. s = [a, b, c, d] \<and> a \<in> {0x74, 0x54} \<and> b \<in> {0x72, 0x52} \<and>
                c \<in> {0x75, 0x55} \<and> d \<in> {0x65, 0x45}"
    by blast
next
  assume "\<exists>a b c d. s = [a, b, c, d] \<and> a \<in> {0x74, 0x54} \<and> b \<in> {0x72, 0x52} \<and>
                c \<in> {0x75, 0x55} \<and> d \<in> {0x65, 0x45}"
  then show "toLowerCase s = lit ''true''"
    unfolding toLowerCase_def lit_true by auto
qed

lemma String_undefined: "toLowerCase (String None) \<noteq> lit ''true''"
  by (simp add: toLowerCase_def String_def lit_def)

lemma is_vip_iff:
  "ch_is_vip (csvChapter book row index) \<longleftrightarrow>
   (\<exists>a b c d. row_is_vip row = Some [a, b, c, d] \<and> a \<in> {0x74, 0x54} \<and> b \<in> {0x72, 0x52} \<and>
                c \<in> {0x75, 0x55} \<and> d \<in> {0x65, 0x45})"
proof (cases "row_is_vip row")
  case None
  then show ?thesis
    using String_undefined by (simp add: csvChapter_def Let_def)
next
  case (Some s)
  then show ?thesis
    using toLowerCase_true [of s] by (simp add: csvChapter_def Let_def String_def)
qed

lemma while_stop:
  "ys = [] \<or> \<not> P (hd ys) \<Longrightarrow> takeWhile P ys = [] \<and> dropWhile P ys = ys"
  by (cases ys) auto

lemma takeWhile_prefix:
  "list_all P xs \<Longrightarrow> ys = [] \<or> \<not> P (hd ys) \<Longrightarrow> takeWhile P (xs @ ys) = xs"
  by (induction xs) (simp_all add: while_stop)

lemma dropWhile_prefix:
  "list_all P xs \<Longrightarrow> ys = [] \<or> \<not> P (hd ys) \<Longrightarrow> dropWhile P (xs @ ys) = ys"
  by (induction xs) (simp_all add: while_stop)

lemma digit_facts:
  "\<not> isDecimalDigit 0x2E" "\<not> isDecimalDigit 0x65" "\<not> isDecimalDigit 0x45"
  "\<not> isDecimalDigit 0x2B" "\<not> isDecimalDigit 0x2D" "\<not> isDecimalDigit 0x49"
  by (simp_all add: isDecimalDigit_def)

text \<open>The exponent that the code accepts is the exponent of the grammar, or nothing.\<close>

lemma exponentPart_iff:
  "exponentPart e \<noteq> None \<longleftrightarrow> e = [] \<or> exponent_part e"
proof (cases e)
  case Nil
  then show ?thesis by (simp add: exponentPart_def)
next
  case (Cons c r)
  show ?thesis
  proof (cases "c = 0x65 \<or> c = 0x45")
    case False
    then show ?thesis
      by (auto simp: Cons exponentPart_def exponent_part_def)
  next
    case True
    let ?ds = "case r of x # xs \<Rightarrow> if x = 0x2B \<or> x = 0x2D then xs else r | [] \<Rightarrow> r"
    have acc: "exponentPart e \<noteq> None \<longleftrightarrow> ?ds \<noteq> [] \<and> list_all isDecimalDigit ?ds"
      using True by (simp add: Cons exponentPart_def Let_def)
    have "exponent_part e \<longleftrightarrow> ?ds \<noteq> [] \<and> list_all isDecimalDigit ?ds"
    proof
      assume "exponent_part e"
      then obtain sg ds where r: "r = sg @ ds" and sg: "sg \<in> {[], [0x2B], [0x2D]}"
        and ds: "ds \<noteq> []" "list_all isDecimalDigit ds"
        by (auto simp: exponent_part_def decimal_digits_def Cons)
      from ds obtain d ds' where d: "ds = d # ds'" "isDecimalDigit d"
        by (cases ds) auto
      then have "d \<noteq> 0x2B" "d \<noteq> 0x2D" using digit_facts by auto
      then have "?ds = ds"
        using sg r d by auto
      with ds show "?ds \<noteq> [] \<and> list_all isDecimalDigit ?ds" by simp
    next
      assume a: "?ds \<noteq> [] \<and> list_all isDecimalDigit ?ds"
      have "\<exists>sg. r = sg @ ?ds \<and> sg \<in> {[], [0x2B], [0x2D]}"
        by (cases r) auto
      then obtain sg where "r = sg @ ?ds" "sg \<in> {[], [0x2B], [0x2D]}" by blast
      with a True show "exponent_part e"
        unfolding exponent_part_def decimal_digits_def Cons by blast
    qed
    with acc Cons show ?thesis by simp
  qed
qed

lemma exponent_part_hd: "exponent_part e \<Longrightarrow> e \<noteq> [] \<and> \<not> isDecimalDigit (hd e) \<and> hd e \<noteq> 0x2E"
  by (auto simp: exponent_part_def isDecimalDigit_def)


text \<open>Where the code cuts an unsigned decimal literal, and when it takes it for a number.\<close>

lemma exponentPart_Nil: "exponentPart [] = Some 0"
  by (simp add: exponentPart_def)

lemma strUnsignedDecimalLiteral_accepts:
  "strUnsignedDecimalLiteral neg s \<noteq> NaN \<longleftrightarrow>
   s = lit ''Infinity'' \<or>
   (case dropWhile isDecimalDigit s of
      [] \<Rightarrow> takeWhile isDecimalDigit s \<noteq> []
    | c # r \<Rightarrow>
        if c = 0x2E
        then takeWhile isDecimalDigit s @ takeWhile isDecimalDigit r \<noteq> [] \<and>
             exponentPart (dropWhile isDecimalDigit r) \<noteq> None
        else takeWhile isDecimalDigit s \<noteq> [] \<and> exponentPart (c # r) \<noteq> None)"
proof (cases "dropWhile isDecimalDigit s")
  case Nil
  show ?thesis
    unfolding strUnsignedDecimalLiteral_def Let_def Nil
    by (simp add: exponentPart_Nil)
next
  case (Cons c r)
  show ?thesis
    unfolding strUnsignedDecimalLiteral_def Let_def Cons
    by (cases "c = 0x2E"; cases "exponentPart (dropWhile isDecimalDigit r)";
        cases "exponentPart (c # r)"; simp)
qed

lemma unsigned_decimal_literal_iff:
  "strUnsignedDecimalLiteral neg s \<noteq> NaN \<longleftrightarrow> unsigned_decimal_literal s"
proof (cases "s = lit ''Infinity''")
  case True
  then show ?thesis
    by (simp add: strUnsignedDecimalLiteral_accepts unsigned_decimal_literal_def)
next
  case False
  let ?ip = "takeWhile isDecimalDigit s"
  let ?r1 = "dropWhile isDecimalDigit s"
  have s: "s = ?ip @ ?r1" by simp
  have ip: "list_all isDecimalDigit ?ip"
    by (simp add: list_all_iff) (meson set_takeWhileD)
  show ?thesis
  proof
    assume acc: "strUnsignedDecimalLiteral neg s \<noteq> NaN"
    show "unsigned_decimal_literal s"
    proof (cases ?r1)
      case Nil
      with acc False have "?ip \<noteq> []"
        by (simp add: strUnsignedDecimalLiteral_accepts)
      moreover have "s = ?ip @ []" using s Nil by simp
      ultimately show ?thesis
        unfolding unsigned_decimal_literal_def using ip by blast
    next
      case (Cons c r)
      show ?thesis
      proof (cases "c = 0x2E")
        case True
        let ?fp = "takeWhile isDecimalDigit r"
        let ?e = "dropWhile isDecimalDigit r"
        from acc False Cons True have ne: "?ip @ ?fp \<noteq> []" and ex: "exponentPart ?e \<noteq> None"
          by (simp_all add: strUnsignedDecimalLiteral_accepts)
        have fp: "list_all isDecimalDigit ?fp"
          by (simp add: list_all_iff) (meson set_takeWhileD)
        have "s = ?ip @ [0x2E] @ ?fp @ ?e"
          using s Cons True by simp
        moreover have "?e = [] \<or> exponent_part ?e"
          using ex by (simp only: exponentPart_iff)
        ultimately show ?thesis
          unfolding unsigned_decimal_literal_def using ip fp ne by blast
      next
        case notdot: False
        from acc False Cons notdot have ne: "?ip \<noteq> []" and ex: "exponentPart (c # r) \<noteq> None"
          by (simp_all add: strUnsignedDecimalLiteral_accepts)
        have "exponent_part (c # r)"
          using ex exponentPart_iff [of "c # r"] by simp
        moreover have "s = ?ip @ (c # r)" using s Cons by simp
        ultimately show ?thesis
          unfolding unsigned_decimal_literal_def using ip ne by blast
      qed
    qed
  next
    assume "unsigned_decimal_literal s"
    with False obtain ip fp e where ipd: "list_all isDecimalDigit ip"
      and fpd: "list_all isDecimalDigit fp" and e: "e = [] \<or> exponent_part e"
      and form: "s = ip @ e \<and> ip \<noteq> [] \<or> s = ip @ [0x2E] @ fp @ e \<and> ip @ fp \<noteq> []"
      unfolding unsigned_decimal_literal_def by blast
    have stop: "e = [] \<or> \<not> isDecimalDigit (hd e)"
      using e exponent_part_hd by blast
    have ex: "exponentPart e \<noteq> None"
      using e by (simp only: exponentPart_iff)
    from form show "strUnsignedDecimalLiteral neg s \<noteq> NaN"
    proof
      assume f: "s = ip @ e \<and> ip \<noteq> []"
      then have tk: "takeWhile isDecimalDigit s = ip" and dr: "dropWhile isDecimalDigit s = e"
        using ipd stop by (simp_all add: takeWhile_prefix dropWhile_prefix)
      show ?thesis
      proof (cases e)
        case Nil
        then show ?thesis using f
          unfolding strUnsignedDecimalLiteral_accepts tk dr by simp
      next
        case (Cons c r)
        then have "c \<noteq> 0x2E" using e exponent_part_hd [of e] by auto
        then show ?thesis using f ex Cons
          unfolding strUnsignedDecimalLiteral_accepts tk dr by simp
      qed
    next
      assume f: "s = ip @ [0x2E] @ fp @ e \<and> ip @ fp \<noteq> []"
      then have tk: "takeWhile isDecimalDigit s = ip"
        and dr: "dropWhile isDecimalDigit s = 0x2E # fp @ e"
        using ipd by (simp_all add: takeWhile_prefix dropWhile_prefix digit_facts)
      have tf: "takeWhile isDecimalDigit (fp @ e) = fp"
        and df: "dropWhile isDecimalDigit (fp @ e) = e"
        using fpd stop by (simp_all add: takeWhile_prefix dropWhile_prefix)
      show ?thesis using f ex
        unfolding strUnsignedDecimalLiteral_accepts tk dr by (simp add: tf df)
    qed
  qed
qed


text \<open>The digits of radix 2, 8 and 16.\<close>

lemma isRadixDigit_2: "isRadixDigit 2 c \<longleftrightarrow> c \<in> {0x30, 0x31}"
  unfolding isRadixDigit_def digitValue_def by (simp split: option.splits) arith

lemma isRadixDigit_8: "isRadixDigit 8 c \<longleftrightarrow> 0x30 \<le> c \<and> c \<le> 0x37"
  unfolding isRadixDigit_def digitValue_def by (simp split: option.splits) arith

lemma isRadixDigit_16:
  "isRadixDigit 16 c \<longleftrightarrow>
   0x30 \<le> c \<and> c \<le> 0x39 \<or> 0x61 \<le> c \<and> c \<le> 0x66 \<or> 0x41 \<le> c \<and> c \<le> 0x46"
  unfolding isRadixDigit_def digitValue_def by (simp split: option.splits) arith

lemma nonDecimalRadix_Some:
  assumes "nonDecimalRadix s = Some R"
  obtains b rest where "s = 0x30 # b # rest"
    "b \<in> {0x62, 0x42} \<and> R = 2 \<or> b \<in> {0x6F, 0x4F} \<and> R = 8 \<or> b \<in> {0x78, 0x58} \<and> R = 16"
  using assms unfolding nonDecimalRadix_def
  by (auto split: list.splits if_splits)

lemma nonDecimalRadix_None: "nonDecimalRadix s = None \<Longrightarrow> \<not> non_decimal_literal s"
  unfolding nonDecimalRadix_def non_decimal_literal_def
  by (auto split: list.splits if_splits)

lemma non_decimal_literal_iff:
  assumes "nonDecimalRadix s = Some R"
  shows "drop 2 s \<noteq> [] \<and> list_all (isRadixDigit R) (drop 2 s) \<longleftrightarrow> non_decimal_literal s"
proof -
  from assms obtain b rest where s: "s = 0x30 # b # rest"
    and b: "b \<in> {0x62, 0x42} \<and> R = 2 \<or> b \<in> {0x6F, 0x4F} \<and> R = 8 \<or> b \<in> {0x78, 0x58} \<and> R = 16"
    by (rule nonDecimalRadix_Some)
  have "non_decimal_literal s \<longleftrightarrow>
     rest \<noteq> [] \<and>
        (b \<in> {0x62, 0x42} \<and> list_all (isRadixDigit 2) rest \<or>
         b \<in> {0x6F, 0x4F} \<and> list_all (isRadixDigit 8) rest \<or>
         b \<in> {0x78, 0x58} \<and> list_all (isRadixDigit 16) rest)"
    unfolding non_decimal_literal_def s list_all_iff isRadixDigit_2 isRadixDigit_8 isRadixDigit_16
    by blast
  also have "\<dots> \<longleftrightarrow> rest \<noteq> [] \<and> list_all (isRadixDigit R) rest"
    using b by auto
  finally show ?thesis
    by (simp add: s)
qed

lemma not_Infinity: "c \<noteq> 0x49 \<Longrightarrow> c # r \<noteq> lit ''Infinity''"
  by (simp add: lit_def)

text \<open>A sign is no start of an unsigned literal, and a radix prefix starts no decimal one.\<close>

lemma unsigned_not_sign:
  assumes "c = 0x2B \<or> c = 0x2D"
  shows "\<not> unsigned_decimal_literal (c # r)"
proof -
  have "\<not> isDecimalDigit c" "c \<noteq> 0x2E" "c \<noteq> 0x49"
    using assms digit_facts by auto
  then have "\<not> strUnsignedDecimalLiteral False (c # r) \<noteq> NaN"
    unfolding strUnsignedDecimalLiteral_accepts by (simp add: not_Infinity)
  then show ?thesis
    using unsigned_decimal_literal_iff [of False "c # r"] by blast
qed

lemma unsigned_not_prefixed:
  assumes "nonDecimalRadix s = Some R"
  shows "\<not> unsigned_decimal_literal s"
proof -
  from assms obtain b rest where s: "s = 0x30 # b # rest"
    and b: "b \<in> {0x62, 0x42} \<and> R = 2 \<or> b \<in> {0x6F, 0x4F} \<and> R = 8 \<or> b \<in> {0x78, 0x58} \<and> R = 16"
    by (rule nonDecimalRadix_Some)
  have d: "isDecimalDigit 0x30" "\<not> isDecimalDigit b" "b \<noteq> 0x2E" "b \<noteq> 0x65" "b \<noteq> 0x45"
    using b by (auto simp: isDecimalDigit_def)
  have "exponentPart (b # rest) = None"
    using d by (simp add: exponentPart_def)
  then have "\<not> strUnsignedDecimalLiteral False s \<noteq> NaN"
    unfolding strUnsignedDecimalLiteral_accepts s using d by (simp add: not_Infinity)
  then show ?thesis
    using unsigned_decimal_literal_iff [of False s] by blast
qed

lemma signed_literal_cases:
  "(\<exists>sg body. c # r = sg @ body \<and> sg \<in> {[], [0x2B], [0x2D]} \<and> unsigned_decimal_literal body) \<longleftrightarrow>
   unsigned_decimal_literal (c # r) \<or> (c = 0x2B \<or> c = 0x2D) \<and> unsigned_decimal_literal r"
proof
  assume "\<exists>sg body. c # r = sg @ body \<and> sg \<in> {[], [0x2B], [0x2D]} \<and> unsigned_decimal_literal body"
  then obtain sg body where eq: "c # r = sg @ body" and sg: "sg = [] \<or> sg = [0x2B] \<or> sg = [0x2D]"
    and u: "unsigned_decimal_literal body"
    by auto
  from sg eq u show "unsigned_decimal_literal (c # r) \<or>
      (c = 0x2B \<or> c = 0x2D) \<and> unsigned_decimal_literal r"
    by auto
next
  assume "unsigned_decimal_literal (c # r) \<or> (c = 0x2B \<or> c = 0x2D) \<and> unsigned_decimal_literal r"
  then consider "unsigned_decimal_literal (c # r)" | "c = 0x2B" "unsigned_decimal_literal r"
    | "c = 0x2D" "unsigned_decimal_literal r"
    by blast
  then show "\<exists>sg body. c # r = sg @ body \<and> sg \<in> {[], [0x2B], [0x2D]} \<and>
      unsigned_decimal_literal body"
  proof cases
    case 1
    then have "c # r = [] @ (c # r) \<and> [] \<in> {[], [0x2B], [0x2D::nat]} \<and>
        unsigned_decimal_literal (c # r)"
      by simp
    then show ?thesis by blast
  next
    case 2
    then have "c # r = [0x2B] @ r \<and> [0x2B] \<in> {[], [0x2B], [0x2D::nat]} \<and>
        unsigned_decimal_literal r"
      by simp
    then show ?thesis by blast
  next
    case 3
    then have "c # r = [0x2D] @ r \<and> [0x2D] \<in> {[], [0x2B], [0x2D::nat]} \<and>
        unsigned_decimal_literal r"
      by simp
    then show ?thesis by blast
  qed
qed

lemma signed_literal_iff:
  "(\<exists>sg body. c # r = sg @ body \<and> sg \<in> {[], [0x2B], [0x2D]} \<and> unsigned_decimal_literal body) \<longleftrightarrow>
   (if c = 0x2B \<or> c = 0x2D then unsigned_decimal_literal r else unsigned_decimal_literal (c # r))"
  unfolding signed_literal_cases using unsigned_not_sign [of c r] by auto

text \<open>\<^verbatim>\<open>Number\<close> of a string is \<^verbatim>\<open>NaN\<close> exactly when the string is no numeric literal.\<close>

lemma StringToNumber_NaN_iff: "StringToNumber str = NaN \<longleftrightarrow> \<not> numeric_literal (trim str)"
proof (cases "trim str")
  case Nil
  then show ?thesis
    by (simp add: StringToNumber_def numeric_literal_def)
next
  case (Cons c r)
  show ?thesis
  proof (cases "nonDecimalRadix (c # r)")
    case None
    have "StringToNumber str =
        (if c = 0x2B then strUnsignedDecimalLiteral False r
         else if c = 0x2D then strUnsignedDecimalLiteral True r
         else strUnsignedDecimalLiteral False (c # r))"
      by (simp add: StringToNumber_def Cons None)
    then have "StringToNumber str \<noteq> NaN \<longleftrightarrow>
        (if c = 0x2B \<or> c = 0x2D then unsigned_decimal_literal r else unsigned_decimal_literal (c # r))"
      by (simp add: unsigned_decimal_literal_iff)
    also have "\<dots> \<longleftrightarrow> numeric_literal (c # r)"
      unfolding numeric_literal_def signed_literal_iff [symmetric]
      using nonDecimalRadix_None [OF None] by simp
    finally show ?thesis
      unfolding Cons by blast
  next
    case (Some R)
    have "StringToNumber str \<noteq> NaN \<longleftrightarrow>
        drop 2 (c # r) \<noteq> [] \<and> list_all (isRadixDigit R) (drop 2 (c # r))"
      by (simp add: StringToNumber_def Cons Some)
    also have "\<dots> \<longleftrightarrow> non_decimal_literal (c # r)"
      by (rule non_decimal_literal_iff [OF Some])
    also have "\<dots> \<longleftrightarrow> numeric_literal (c # r)"
    proof -
      have "c \<noteq> 0x2B" "c \<noteq> 0x2D"
        using Some by (auto elim: nonDecimalRadix_Some)
      then have "\<not> (\<exists>sg body. c # r = sg @ body \<and> sg \<in> {[], [0x2B], [0x2D]} \<and>
                      unsigned_decimal_literal body)"
        unfolding signed_literal_iff using unsigned_not_prefixed [OF Some] by simp
      then show ?thesis
        unfolding numeric_literal_def by blast
    qed
    finally show ?thesis
      unfolding Cons by blast
  qed
qed


text \<open>The value \<^verbatim>\<open>Number\<close> gives to a blank cell and to a cell of decimal digits.\<close>

lemma trim_blank: "list_all isWhiteSpace s \<Longrightarrow> trim s = []"
  by (simp add: trim_def dropWhile_all)

lemma StringToNumber_blank: "list_all isWhiteSpace s \<Longrightarrow> StringToNumber s = Decimal False 0 0"
  by (simp add: StringToNumber_def trim_blank)

lemma digit_not_space: "isDecimalDigit c \<Longrightarrow> \<not> isWhiteSpace c"
  by (auto simp: isDecimalDigit_def isWhiteSpace_def)

lemma trim_unchanged:
  assumes "s \<noteq> []" "\<not> isWhiteSpace (hd s)" "\<not> isWhiteSpace (last s)"
  shows "trim s = s"
proof -
  have "dropWhile isWhiteSpace s = s"
    using assms(1,2) by (cases s) simp_all
  moreover have "dropWhile isWhiteSpace (rev s) = rev s"
    using assms(1,3) by (cases "rev s") (simp_all add: last_rev [symmetric] del: last_rev)
  ultimately show ?thesis
    by (simp add: trim_def)
qed

lemma digitsValue_digits:
  "list_all isDecimalDigit ds \<Longrightarrow>
   digitsValue 10 acc ds = foldl (\<lambda>a c. 10 * a + (c - 0x30)) acc ds"
  by (induction ds arbitrary: acc) (simp_all add: isDecimalDigit_def digitValue_def mult.commute)

lemma strUnsignedDecimalLiteral_digits:
  assumes "decimal_digits ds"
  shows "strUnsignedDecimalLiteral neg ds = Decimal neg (decimal_value ds) 0"
proof -
  from assms have ne: "ds \<noteq> []" and all: "list_all isDecimalDigit ds"
    by (simp_all add: decimal_digits_def)
  then have "isDecimalDigit (hd ds)"
    by (cases ds) simp_all
  then have "hd ds \<noteq> 0x49"
    using digit_facts by auto
  then have inf: "ds \<noteq> lit ''Infinity''"
    using ne by (cases ds) (simp_all add: not_Infinity)
  have tk: "takeWhile isDecimalDigit ds = ds" and dr: "dropWhile isDecimalDigit ds = []"
    using all by (simp_all add: list_all_iff)
  show ?thesis
    unfolding strUnsignedDecimalLiteral_def Let_def tk dr
    using inf ne all by (simp add: exponentPart_Nil digitsValue_digits decimal_value_def)
qed

lemma StringToNumber_digits:
  assumes "decimal_digits ds"
  shows "StringToNumber ds = Decimal False (decimal_value ds) 0"
    and "StringToNumber (0x2D # ds) = Decimal True (decimal_value ds) 0"
proof -
  from assms have ne: "ds \<noteq> []" and all: "list_all isDecimalDigit ds"
    by (simp_all add: decimal_digits_def)
  then obtain c r where ds: "ds = c # r" and c: "isDecimalDigit c" and r: "list_all isDecimalDigit r"
    by (cases ds) simp_all
  have "isDecimalDigit (last ds)" "isDecimalDigit (hd ds)"
    using ne all c ds by (simp_all add: list_all_iff)
  then have sp: "\<not> isWhiteSpace (last ds)" "\<not> isWhiteSpace (hd ds)"
    by (simp_all only: digit_not_space not_False_eq_True)
  have t1: "trim ds = ds"
    using ne sp(2) sp(1) by (rule trim_unchanged)
  have "\<not> isWhiteSpace (hd (0x2D # ds))" "\<not> isWhiteSpace (last (0x2D # ds))"
    using ne sp by (simp_all add: isWhiteSpace_def)
  then have t2: "trim (0x2D # ds) = 0x2D # ds"
    by (intro trim_unchanged) simp_all
  note t = t1 t2
  have "nonDecimalRadix ds = None"
    using r unfolding ds nonDecimalRadix_def
    by (cases r) (auto simp: isDecimalDigit_def)
  moreover have "c \<noteq> 0x2B" "c \<noteq> 0x2D"
    using c digit_facts by auto
  ultimately show "StringToNumber ds = Decimal False (decimal_value ds) 0"
    unfolding StringToNumber_def Let_def t(1)
    using strUnsignedDecimalLiteral_digits [OF assms, of False] by (simp add: ds)
  have "nonDecimalRadix (0x2D # ds) = None"
    unfolding ds nonDecimalRadix_def by simp
  then show "StringToNumber (0x2D # ds) = Decimal True (decimal_value ds) 0"
    unfolding StringToNumber_def Let_def t(2)
    using strUnsignedDecimalLiteral_digits [OF assms, of True] by simp
qed

text \<open>Cells with a fraction, an exponent and white space, and cells that only start like a number.\<close>

lemma Number_examples:
  "Number (Some (lit '' -1.5e3 '')) = Decimal True 15 2"
  "Number (Some (lit ''0x1F'')) = Decimal False 31 0"
  "Number (Some (lit ''12px'')) = NaN"
  "Number (Some (lit ''1,5'')) = NaN"
  "Number (Some (lit ''1e'')) = NaN"
  "Number (Some (lit ''0x'')) = NaN"
  by (simp_all add: Number_def StringToNumber_def nonDecimalRadix_def strUnsignedDecimalLiteral_def
        exponentPart_def isDecimalDigit_def isRadixDigit_def digitValue_def trim_def
        isWhiteSpace_def lit_def)


lemma order_NaN_iff:
  "ch_order (csvChapter book row index) = NaN \<longleftrightarrow>
   (case row_order row of None \<Rightarrow> True | Some cell \<Rightarrow> \<not> numeric_literal (trim cell))"
  by (cases "row_order row") (simp_all add: csvChapter_def Let_def Number_def StringToNumber_NaN_iff)

lemma split_one_word:
  "list_all (\<lambda>c. \<not> isWhiteSpace c) S \<Longrightarrow> split_whitespace S = [S]"
proof -
  assume a: "list_all (\<lambda>c. \<not> isWhiteSpace c) S"
  then have "dropWhile (\<lambda>c. \<not> isWhiteSpace c) S = []" "takeWhile (\<lambda>c. \<not> isWhiteSpace c) S = S"
    by (simp_all add: list_all_iff)
  then show ?thesis
    using split_whitespace_last [of S] by simp
qed

lemma split_examples:
  "split_whitespace [0x5185, 0x5BB9] = [[0x5185, 0x5BB9]]"
  "split_whitespace (lit ''Body'') = [lit ''Body'']"
  by (rule split_one_word, simp add: isWhiteSpace_def lit_def)+

lemma chapter_one:
  "csvChapter ''book'' row_chapter_one 0 =
     \<lparr>ch_book_id = ''book'', ch_order = Decimal False 1 0, ch_title = [0x7B2C, 0x4E00, 0x7AE0],
      ch_content = [0x5185, 0x5BB9], ch_is_vip = False, ch_publish_at = None, ch_word_count = 1\<rparr>"
proof -
  have t: "trim [0x5185, 0x5BB9] = [0x5185, 0x5BB9]" "trim [0x7B2C, 0x4E00, 0x7AE0] = [0x7B2C, 0x4E00, 0x7AE0]"
    by (simp_all add: trim_def isWhiteSpace_def)
  have n: "Number (Some (lit ''1'')) = Decimal False 1 0"
    by (simp add: Number_def StringToNumber_def nonDecimalRadix_def strUnsignedDecimalLiteral_def
          exponentPart_def isDecimalDigit_def digitValue_def trim_def isWhiteSpace_def lit_def)
  have v: "toLowerCase (String (Some (lit ''false''))) \<noteq> lit ''true''"
    by (simp add: String_def toLowerCase_def lit_def)
  show ?thesis
    by (simp add: csvChapter_def row_chapter_one_def Let_def t n v split_examples)
qed

lemma bad_order:
  "csvChapter ''book'' row_bad_order 1 =
     \<lparr>ch_book_id = ''book'', ch_order = NaN, ch_title = lit ''Title'',
      ch_content = lit ''Body'', ch_is_vip = True, ch_publish_at = None, ch_word_count = 1\<rparr>"
proof -
  have t: "trim (lit ''Body'') = lit ''Body''" "trim (lit ''Title'') = lit ''Title''"
    "lit ''Title'' \<noteq> []" "lit ''Body'' \<noteq> []"
    by (simp_all add: trim_def isWhiteSpace_def lit_def)
  have n: "Number (Some (lit ''x'')) = NaN"
    by (simp add: Number_def StringToNumber_def nonDecimalRadix_def strUnsignedDecimalLiteral_def
          exponentPart_def isDecimalDigit_def trim_def isWhiteSpace_def lit_def)
  have v: "toLowerCase (String (Some (lit ''true''))) = lit ''true''"
    by (simp add: String_def toLowerCase_def lit_def)
  show ?thesis
    by (simp add: csvChapter_def row_bad_order_def Let_def t n v split_examples)
qed


text \<open>
  Claim C8, as amended. For every parsed row, the chapter has \<open>is_vip\<close> exactly when the
  row's \<^verbatim>\<open>is_vip\<close> cell is one of the sixteen spellings of \<^verbatim>\<open>true\<close> in upper and lower
  case. Its order is \<^verbatim>\<open>Number\<close> of the cell, unchecked: it is \<^verbatim>\<open>NaN\<close> exactly when the cell
  is missing or, its surrounding white space removed, is no numeric literal of the
  ECMAScript grammar. The empty literal counts: an empty or blank cell gives \<open>0\<close>, not
  \<^verbatim>\<open>NaN\<close>. A cell of decimal digits gives the number they spell, negated after a minus
  sign; \<^verbatim>\<open>12px\<close>, \<^verbatim>\<open>1,5\<close>, \<^verbatim>\<open>1e\<close> and \<^verbatim>\<open>0x\<close> give \<^verbatim>\<open>NaN\<close>. An empty \<^verbatim>\<open>publish_at\<close> cell
  becomes \<^verbatim>\<open>null\<close>, and the word count is the number of white-space separated tokens of
  the content. The two rows of the specification come out as stated.
\<close>

theorem csv_row_to_chapter:
  "(ch_is_vip (csvChapter book row index) \<longleftrightarrow>
      (\<exists>a b c d. row_is_vip row = Some [a, b, c, d] \<and> a \<in> {0x74, 0x54} \<and> b \<in> {0x72, 0x52} \<and>
                   c \<in> {0x75, 0x55} \<and> d \<in> {0x65, 0x45})) \<and>
   ch_order (csvChapter book row index) = Number (row_order row) \<and>
   (ch_order (csvChapter book row index) = NaN \<longleftrightarrow>
      (case row_order row of None \<Rightarrow> True | Some cell \<Rightarrow> \<not> numeric_literal (trim cell))) \<and>
   (list_all isWhiteSpace str \<longrightarrow> Number (Some str) = Decimal False 0 0) \<and>
   (decimal_digits ds \<longrightarrow>
      Number (Some ds) = Decimal False (decimal_value ds) 0 \<and>
      Number (Some (0x2D # ds)) = Decimal True (decimal_value ds) 0) \<and>
   Number (Some (lit '' -1.5e3 '')) = Decimal True 15 2 \<and>
   Number (Some (lit ''0x1F'')) = Decimal False 31 0 \<and>
   Number (Some (lit ''12px'')) = NaN \<and>
   Number (Some (lit ''1,5'')) = NaN \<and>
   Number (Some (lit ''1e'')) = NaN \<and>
   Number (Some (lit ''0x'')) = NaN \<and>
   ch_publish_at (csvChapter book row index) =
     (if row_publish_at row = Some [] then None else row_publish_at row) \<and>
   ch_content (csvChapter book row index) = (case row_content row of None \<Rightarrow> [] | Some s \<Rightarrow> s) \<and>
   ch_word_count (csvChapter book row index) =
     length (whitespace_tokens (ch_content (csvChapter book row index))) \<and>
   csvChapter ''book'' row_chapter_one 0 =
     \<lparr>ch_book_id = ''book'', ch_order = Decimal False 1 0, ch_title = [0x7B2C, 0x4E00, 0x7AE0],
      ch_content = [0x5185, 0x5BB9], ch_is_vip = False, ch_publish_at = None, ch_word_count = 1\<rparr> \<and>
   csvChapter ''book'' row_bad_order 1 =
     \<lparr>ch_book_id = ''book'', ch_order = NaN, ch_title = lit ''Title'',
      ch_content = lit ''Body'', ch_is_vip = True, ch_publish_at = None, ch_word_count = 1\<rparr>"
proof (intro conjI impI)
  show "ch_is_vip (csvChapter book row index) \<longleftrightarrow>
      (\<exists>a b c d. row_is_vip row = Some [a, b, c, d] \<and> a \<in> {0x74, 0x54} \<and> b \<in> {0x72, 0x52} \<and>
                   c \<in> {0x75, 0x55} \<and> d \<in> {0x65, 0x45})"
    by (rule is_vip_iff)
  show "ch_order (csvChapter book row index) = Number (row_order row)"
    by (simp add: csvChapter_def Let_def)
  show "ch_order (csvChapter book row index) = NaN \<longleftrightarrow>
      (case row_order row of None \<Rightarrow> True | Some cell \<Rightarrow> \<not> numeric_literal (trim cell))"
    by (rule order_NaN_iff)
  show "Number (Some (lit '' -1.5e3 '')) = Decimal True 15 2"
    "Number (Some (lit ''0x1F'')) = Decimal False 31 0"
    "Number (Some (lit ''12px'')) = NaN"
    "Number (Some (lit ''1,5'')) = NaN"
    "Number (Some (lit ''1e'')) = NaN"
    "Number (Some (lit ''0x'')) = NaN"
    by (rule Number_examples)+
  show "ch_publish_at (csvChapter book row index) =
     (if row_publish_at row = Some [] then None else row_publish_at row)"
    by (cases "row_publish_at row") (simp_all add: csvChapter_def Let_def)
  show "ch_content (csvChapter book row index) = (case row_content row of None \<Rightarrow> [] | Some s \<Rightarrow> s)"
    by (simp add: csvChapter_def Let_def)
  show "ch_word_count (csvChapter book row index) =
     length (whitespace_tokens (ch_content (csvChapter book row index)))"
    by (simp add: csvChapter_def Let_def wordCount_tokens)
  show "csvChapter ''book'' row_chapter_one 0 =
     \<lparr>ch_book_id = ''book'', ch_order = Decimal False 1 0, ch_title = [0x7B2C, 0x4E00, 0x7AE0],
      ch_content = [0x5185, 0x5BB9], ch_is_vip = False, ch_publish_at = None, ch_word_count = 1\<rparr>"
    by (rule chapter_one)
  show "csvChapter ''book'' row_bad_order 1 =
     \<lparr>ch_book_id = ''book'', ch_order = NaN, ch_title = lit ''Title'',
      ch_content = lit ''Body'', ch_is_vip = True, ch_publish_at = None, ch_word_count = 1\<rparr>"
    by (rule bad_order)
next
  assume "list_all isWhiteSpace str"
  then show "Number (Some str) = Decimal False 0 0"
    by (simp add: Number_def StringToNumber_blank)
next
  assume d: "decimal_digits ds"
  show "Number (Some ds) = Decimal False (decimal_value ds) 0"
    by (simp add: Number_def StringToNumber_digits(1) [OF d])
  show "Number (Some (0x2D # ds)) = Decimal True (decimal_value ds) 0"
    by (simp add: Number_def StringToNumber_digits(2) [OF d])
qed

text \<open>
  Claim C8 as stated fails: an empty \<^verbatim>\<open>order\<close> cell holds no number, and the chapter's
  order is \<open>0\<close>, not \<^verbatim>\<open>NaN\<close>.
\<close>

theorem csv_empty_order_counterexample:
  "row_order row_empty_order = Some [] \<and>
   ch_order (csvChapter ''book'' row_empty_order 0) = Decimal False 0 0 \<and>
   ch_order (csvChapter ''book'' row_empty_order 0) \<noteq> NaN"
  by (simp add: row_empty_order_def csvChapter_def Let_def Number_def StringToNumber_def trim_def)

theorem csv_row_to_chapter_witness:
  "row_is_vip row_bad_order = Some [0x74, 0x72, 0x75, 0x65] \<and>
   ch_is_vip (csvChapter ''book'' row_bad_order 1) \<and>
   row_order row_bad_order = Some (lit ''x'') \<and>
   ch_order (csvChapter ''book'' row_bad_order 1) = NaN \<and>
   \<not> numeric_literal (trim (lit ''x'')) \<and>
   list_all isWhiteSpace [0x20] \<and> Number (Some [0x20]) = Decimal False 0 0 \<and>
   decimal_digits (lit ''12'') \<and>
   Number (Some (lit ''12'')) = Decimal False 12 0 \<and>
   Number (Some (lit ''-12'')) = Decimal True 12 0 \<and>
   ch_publish_at (csvChapter ''book'' row_bad_order 1) = None \<and>
   ch_word_count (csvChapter ''book'' row_bad_order 1) = 1"
proof -
  note c = csv_row_to_chapter [where book = "''book''" and row = row_bad_order and index = 1
      and str = "[0x20]" and ds = "lit ''12''"]
  have vip: "row_is_vip row_bad_order = Some [0x74, 0x72, 0x75, 0x65]"
    and ord: "row_order row_bad_order = Some (lit ''x'')"
    by (simp_all add: row_bad_order_def lit_def)
  have h: "list_all isWhiteSpace [0x20]" "decimal_digits (lit ''12'')"
    by (simp_all add: isWhiteSpace_def decimal_digits_def isDecimalDigit_def lit_def)
  have v: "decimal_value (lit ''12'') = 12" "0x2D # lit ''12'' = lit ''-12''"
    by (simp_all add: decimal_value_def lit_def)
  from c vip have 1: "ch_is_vip (csvChapter ''book'' row_bad_order 1)"
    by blast
  from c h(1) have 2: "Number (Some [0x20]) = Decimal False 0 0"
    by blast
  from c h(2) have "Number (Some (lit ''12'')) = Decimal False (decimal_value (lit ''12'')) 0"
    and "Number (Some (0x2D # lit ''12'')) = Decimal True (decimal_value (lit ''12'')) 0"
    by blast+
  then have 3: "Number (Some (lit ''12'')) = Decimal False 12 0"
    and 4: "Number (Some (lit ''-12'')) = Decimal True 12 0"
    unfolding v by this+
  from c have iff: "ch_order (csvChapter ''book'' row_bad_order 1) = NaN \<longleftrightarrow>
      (case row_order row_bad_order of None \<Rightarrow> True
       | Some cell \<Rightarrow> \<not> numeric_literal (trim cell))"
    and 5: "ch_publish_at (csvChapter ''book'' row_bad_order 1) =
     (if row_publish_at row_bad_order = Some [] then None else row_publish_at row_bad_order)"
    and 6: "csvChapter ''book'' row_bad_order 1 =
     \<lparr>ch_book_id = ''book'', ch_order = NaN, ch_title = lit ''Title'',
      ch_content = lit ''Body'', ch_is_vip = True, ch_publish_at = None, ch_word_count = 1\<rparr>"
    by blast+
  have 7: "ch_order (csvChapter ''book'' row_bad_order 1) = NaN"
    unfolding 6 by simp
  have 8: "\<not> numeric_literal (trim (lit ''x''))"
    using iff 7 unfolding ord by simp
  have 5: "ch_publish_at (csvChapter ''book'' row_bad_order 1) = None"
    using 5 by (simp add: row_bad_order_def)
  have 9: "ch_word_count (csvChapter ''book'' row_bad_order 1) = 1"
    unfolding 6 by simp
  show ?thesis
    using vip ord h 1 2 3 4 5 7 8 9 by blast
qed

section \<open>Verification: exporting coin transactions\<close>

lemma replace_quotes_concat:
  "replace_quotes s = concat (map (\<lambda>c. if c = 0x22 then [0x22, 0x22] else [c]) s)"
  by (induction s) simp_all

lemma csv_cell_Str: "csv_cell (Str s) = quoted_field s"
  by (simp add: csv_cell_def quoted_field_def replace_quotes_concat)

lemma csv_cell_Num: "csv_cell (Num n) = ToString n"
  by (simp add: csv_cell_def)

lemma decimal_digits: "set (decimal n) \<subseteq> {0x30..0x39}"
proof (induction n rule: decimal.induct)
  case (1 n)
  show ?case
  proof (cases "n < 10")
    case True
    then show ?thesis by (subst decimal.simps) simp
  next
    case False
    have "n mod 10 < 10" by simp
    then have "0x30 + n mod 10 \<in> {0x30..0x39}" by simp
    with "1.IH" [OF False] False show ?thesis
      by (subst decimal.simps) simp
  qed
qed

lemma ToString_unquoted: "0x22 \<notin> set (ToString n)"
  using decimal_digits [of "nat (sint n)"] decimal_digits [of "nat (- sint n)"]
  by (auto simp: ToString_def)

text \<open>The line of one transaction.\<close>

lemma row_line:
  "join [0x2C] (map csv_cell (csvData_values f t)) =
   join [0x2C] [quoted_field (username t), ToString (amount t), quoted_field (typeLabels (tx_type t)),
                quoted_field (tx_description t), quoted_field (f (tx_created_at t))]"
  by (simp add: csvData_values_def csv_cell_Str csv_cell_Num)

lemma decimal_nonempty: "decimal n \<noteq> []"
  by (subst decimal.simps) simp

lemma decimal_all_digits: "list_all isDecimalDigit (decimal n)"
  using decimal_digits [of n] by (auto simp: list_all_iff isDecimalDigit_def)

lemma decimal_value_snoc: "decimal_value (s @ [c]) = 10 * decimal_value s + (c - 0x30)"
  by (simp add: decimal_value_def)

lemma decimal_value_decimal: "decimal_value (decimal n) = n"
proof (induction n rule: decimal.induct)
  case (1 n)
  show ?case
  proof (cases "n < 10")
    case True
    then show ?thesis
      by (subst decimal.simps) (simp add: decimal_value_def)
  next
    case False
    then have "decimal n = decimal (n div 10) @ [0x30 + n mod 10]"
      by (subst decimal.simps) simp
    then show ?thesis
      using "1.IH" [OF False] by (simp add: decimal_value_snoc)
  qed
qed

lemma hd_decimal: "0 < n \<Longrightarrow> 0x31 \<le> hd (decimal n)"
proof (induction n rule: decimal.induct)
  case (1 n)
  show ?case
  proof (cases "n < 10")
    case True
    then show ?thesis
      using "1.prems" by (subst decimal.simps) simp
  next
    case False
    then have "decimal n = decimal (n div 10) @ [0x30 + n mod 10]"
      by (subst decimal.simps) simp
    moreover have "0 < n div 10" using False by simp
    ultimately show ?thesis
      using "1.IH" [OF False] by (simp add: decimal_nonempty)
  qed
qed

lemma decimal_zero: "decimal 0 = [0x30]"
  by (subst decimal.simps) simp

text \<open>The digits that the code prints are the plain decimal text of the number.\<close>

lemma plain_decimal_decimal: "plain_decimal n (decimal n)"
proof (cases "n = 0")
  case True
  then show ?thesis
    by (simp add: plain_decimal_def decimal_zero isDecimalDigit_def decimal_value_def)
next
  case False
  then have "0x31 \<le> hd (decimal n)" by (simp add: hd_decimal)
  then show ?thesis
    by (simp add: plain_decimal_def decimal_nonempty decimal_all_digits decimal_value_decimal)
qed

lemma number_text_ToString: "number_text (sint n) (ToString n)"
  by (simp add: number_text_def ToString_def plain_decimal_decimal)

text \<open>No other text is the plain decimal text of that number.\<close>

lemma decimal_value_positive:
  "s \<noteq> [] \<Longrightarrow> 0x31 \<le> hd s \<Longrightarrow> 0 < decimal_value s"
proof (induction s rule: rev_induct)
  case Nil
  then show ?case by simp
next
  case (snoc c s)
  show ?case
  proof (cases "s = []")
    case True
    then show ?thesis using snoc.prems by (simp add: decimal_value_def)
  next
    case False
    then have "0 < decimal_value s" using snoc by simp
    then show ?thesis by (simp add: decimal_value_snoc)
  qed
qed

lemma plain_decimal_unique: "plain_decimal n s \<Longrightarrow> s = decimal n"
proof (induction s arbitrary: n rule: rev_induct)
  case Nil
  then show ?case by (simp add: plain_decimal_def)
next
  case (snoc c s)
  from snoc.prems have c: "0x30 \<le> c" "c \<le> 0x39" and digits: "list_all isDecimalDigit s"
    and lead: "s @ [c] = [0x30] \<or> 0x31 \<le> hd (s @ [c])"
    and val: "10 * decimal_value s + (c - 0x30) = n"
    by (simp_all add: plain_decimal_def isDecimalDigit_def decimal_value_snoc)
  show ?case
  proof (cases "s = []")
    case True
    then have "n = c - 0x30" "n < 10" using val c by (simp_all add: decimal_value_def)
    then have "decimal n = [c]" using c by (subst decimal.simps) simp
    with True show ?thesis by simp
  next
    case False
    then have h: "0x31 \<le> hd s" using lead by simp
    then have pos: "0 < decimal_value s" using False by (simp add: decimal_value_positive)
    have "plain_decimal (decimal_value s) s"
      using False digits h by (simp add: plain_decimal_def)
    then have s: "s = decimal (decimal_value s)" by (rule snoc.IH)
    define d where "d = c - 0x30"
    have d: "d < 10" "c = 0x30 + d" using c by (simp_all add: d_def)
    have n: "n = decimal_value s * 10 + d" using val by (simp add: d_def)
    have "n div 10 = decimal_value s" "n mod 10 = d" "\<not> n < 10"
      using d(1) pos by (simp_all add: n)
    then have "decimal n = decimal (decimal_value s) @ [0x30 + d]"
      by (subst decimal.simps) simp
    with s d show ?thesis by simp
  qed
qed

lemma plain_decimal_iff: "plain_decimal n s \<longleftrightarrow> s = decimal n"
  using plain_decimal_unique plain_decimal_decimal by blast

lemma number_text_iff: "number_text (sint n) s \<longleftrightarrow> s = ToString n"
proof (cases "sint n < 0")
  case True
  then show ?thesis
    by (cases s) (auto simp: number_text_def ToString_def plain_decimal_iff)
next
  case False
  then show ?thesis
    by (simp add: number_text_def ToString_def plain_decimal_iff)
qed


text \<open>
  Claim C9, as amended. For every list of transactions that is not empty, the text of the
  export is the header line, the five column names joined by commas, and then one line per
  transaction, all joined by line feeds; the line of a transaction is its five fields
  joined by commas, the four text fields each between double quotes with every double
  quote of the field doubled, and the amount unquoted, as the plain decimal text of the
  number and no other text. For the empty list the export is the empty text.
\<close>

theorem export_csv_format:
  "(txs \<noteq> [] \<longrightarrow>
      exportToCSV f txs =
        join [0x0A]
          (lit ''Username,Amount,Type,Description,Transaction Date'' #
           map (\<lambda>t. join [0x2C]
                       [quoted_field (username t), ToString (amount t),
                        quoted_field (typeLabels (tx_type t)), quoted_field (tx_description t),
                        quoted_field (f (tx_created_at t))]) txs)) \<and>
   exportToCSV f [] = [] \<and>
   csv_cell (Str s) = quoted_field s \<and>
   csv_cell (Num n) = ToString n \<and>
   (number_text (sint n) a \<longleftrightarrow> a = ToString n) \<and>
   0x22 \<notin> set (ToString n)"
proof (intro conjI impI)
  assume ne: "txs \<noteq> []"
  have rows: "map (\<lambda>row. join [0x2C] (map csv_cell row)) (map (csvData_values f) txs) =
              map (\<lambda>t. join [0x2C]
                    [quoted_field (username t), ToString (amount t),
                     quoted_field (typeLabels (tx_type t)), quoted_field (tx_description t),
                     quoted_field (f (tx_created_at t))]) txs"
    by (simp add: comp_def row_line)
  have "join [0x2C] (case map (csvData_values f) txs of [] \<Rightarrow> [] | first # _ \<Rightarrow> csvData_keys) =
        lit ''Username,Amount,Type,Description,Transaction Date''"
    using ne by (cases txs) (simp_all add: csvData_keys_def lit_def)
  with rows show "exportToCSV f txs =
        join [0x0A]
          (lit ''Username,Amount,Type,Description,Transaction Date'' #
           map (\<lambda>t. join [0x2C]
                       [quoted_field (username t), ToString (amount t),
                        quoted_field (typeLabels (tx_type t)), quoted_field (tx_description t),
                        quoted_field (f (tx_created_at t))]) txs)"
    by (simp only: exportToCSV_def Let_def)
next
  show "exportToCSV f [] = []"
    by (simp add: exportToCSV_def)
  show "number_text (sint n) a \<longleftrightarrow> a = ToString n"
    by (rule number_text_iff)
qed (simp_all add: csv_cell_Str csv_cell_Num ToString_unquoted)

text \<open>
  Claim C9 as stated fails: the header is read from the first row, so the export of no
  transaction has no header line; it is the empty text.
\<close>

theorem export_empty_list_counterexample:
  "exportToCSV (\<lambda>d. d) [] = []"
  by (simp add: exportToCSV_def)

theorem export_csv_format_witness:
  "[tx_gift, tx_recharge] \<noteq> [] \<and>
   exportToCSV (\<lambda>d. d) [tx_gift, tx_recharge] =
     lit ''Username,Amount,Type,Description,Transaction Date'' @ [0x0A] @
     [0x22] @ lit ''reader_1'' @ [0x22] @ lit '',-30,'' @ [0x22, 0x6253, 0x8D4F, 0x22] @ lit '','' @
     [0x22] @ lit ''Tip for '' @ [0x22, 0x22] @ lit ''Dawn'' @ [0x22, 0x22] @ lit '', ch. 3'' @ [0x22] @
     lit '','' @ [0x22] @ lit ''2024-03-01T08:00:00Z'' @ [0x22] @ [0x0A] @
     [0x22] @ lit ''reader_2'' @ [0x22] @ lit '',500,'' @ [0x22, 0x5145, 0x503C, 0x22] @ lit '','' @
     [0x22] @ lit ''Top up'' @ [0x22] @
     lit '','' @ [0x22] @ lit ''2024-03-02T09:30:00Z'' @ [0x22] \<and>
   number_text (- 30) (lit ''-30'') \<and> ToString (amount tx_gift) = lit ''-30''"
proof -
  note e = export_csv_format [where txs = "[tx_gift, tx_recharge]" and f = "\<lambda>d. d"
      and n = "amount tx_gift" and a = "lit ''-30''" and s = "[]"]
  have ne: "[tx_gift, tx_recharge] \<noteq> []" by simp
  have t: "ToString (amount tx_gift) = lit ''-30''"
    by (simp add: ToString_def tx_gift_def decimal.simps lit_def)
  have v: "sint (amount tx_gift) = - 30"
    by (simp add: tx_gift_def)
  from e ne have 1: "exportToCSV (\<lambda>d. d) [tx_gift, tx_recharge] =
        join [0x0A]
          (lit ''Username,Amount,Type,Description,Transaction Date'' #
           map (\<lambda>t. join [0x2C]
                       [quoted_field (username t), ToString (amount t),
                        quoted_field (typeLabels (tx_type t)), quoted_field (tx_description t),
                        quoted_field (tx_created_at t)]) [tx_gift, tx_recharge])"
    by blast
  from e have "number_text (sint (amount tx_gift)) (lit ''-30'') \<longleftrightarrow>
                lit ''-30'' = ToString (amount tx_gift)"
    by blast
  with t have 2: "number_text (sint (amount tx_gift)) (lit ''-30'')"
    by simp
  have 3: "exportToCSV (\<lambda>d. d) [tx_gift, tx_recharge] =
     lit ''Username,Amount,Type,Description,Transaction Date'' @ [0x0A] @
     [0x22] @ lit ''reader_1'' @ [0x22] @ lit '',-30,'' @ [0x22, 0x6253, 0x8D4F, 0x22] @ lit '','' @
     [0x22] @ lit ''Tip for '' @ [0x22, 0x22] @ lit ''Dawn'' @ [0x22, 0x22] @ lit '', ch. 3'' @ [0x22] @
     lit '','' @ [0x22] @ lit ''2024-03-01T08:00:00Z'' @ [0x22] @ [0x0A] @
     [0x22] @ lit ''reader_2'' @ [0x22] @ lit '',500,'' @ [0x22, 0x5145, 0x503C, 0x22] @ lit '','' @
     [0x22] @ lit ''Top up'' @ [0x22] @
     lit '','' @ [0x22] @ lit ''2024-03-02T09:30:00Z'' @ [0x22]"
    unfolding 1
    by (simp add: quoted_field_def ToString_def decimal.simps typeLabels_def tx_gift_def
          tx_recharge_def lit_def)
  from 2 have 4: "number_text (- 30) (lit ''-30'')"
    by (simp only: v)
  show ?thesis
    using ne 3 4 t by blast
qed

end
